theory Spec2Isabelle
  imports Complex_Main "HOL-Library.Multiset"
begin

section \<open>Python strings\<close>

text \<open>
  A Python \<^verbatim>\<open>str\<close> is a sequence of code points. It is modelled as a \<^typ>\<open>string\<close>,
  one \<^typ>\<open>char\<close> per code point, which covers the code points below 256 (ASCII and
  Latin-1). The case mappings and the character classes below are Python's on that
  range.
\<close>

definition code_point :: "char \<Rightarrow> int" where
  "code_point c = of_char c"

text \<open>\<^verbatim>\<open>str.lower()\<close>: A-Z and the Latin-1 capitals (all of 0xC0-0xDE but the
  multiplication sign 0xD7) move up by 32.\<close>

definition lower_char :: "char \<Rightarrow> char" where
  "lower_char c =
     (let n = code_point c
      in if (65 \<le> n \<and> n \<le> 90) \<or> (192 \<le> n \<and> n \<le> 222 \<and> n \<noteq> 215)
         then char_of (n + 32) else c)"

definition lower :: "string \<Rightarrow> string" where
  "lower s = map lower_char s"

text \<open>\<^verbatim>\<open>str.upper()\<close>: a-z and the Latin-1 small letters (0xE0-0xFE but the division
  sign 0xF7) move down by 32, the sharp s (0xDF) becomes \<^verbatim>\<open>SS\<close>. The capitals of the
  micro sign (0xB5) and of y with diaeresis (0xFF) lie above 255; they are left as they
  are, which no comparison with an ASCII word can see.\<close>

definition upper_char :: "char \<Rightarrow> string" where
  "upper_char c =
     (let n = code_point c
      in if (97 \<le> n \<and> n \<le> 122) \<or> (224 \<le> n \<and> n \<le> 254 \<and> n \<noteq> 247)
         then [char_of (n - 32)]
         else if n = 223 then ''SS'' else [c])"

definition upper :: "string \<Rightarrow> string" where
  "upper s = concat (map upper_char s)"

text \<open>\<^verbatim>\<open>sep.join(parts)\<close>.\<close>

fun join :: "'a list \<Rightarrow> 'a list list \<Rightarrow> 'a list" where
  "join sep [] = []"
| "join sep [x] = x"
| "join sep (x # y # ys) = x @ sep @ join sep (y # ys)"

text \<open>\<^verbatim>\<open>needle in hay\<close> on strings: the needle starts at some position of the hay.\<close>

fun starts_with :: "'a list \<Rightarrow> 'a list \<Rightarrow> bool" where
  "starts_with hay [] = True"
| "starts_with [] (n # ns) = False"
| "starts_with (h # hs) (n # ns) = (h = n \<and> starts_with hs ns)"

fun str_in :: "'a list \<Rightarrow> 'a list \<Rightarrow> bool" where
  "str_in needle [] = (needle = [])"
| "str_in needle (h # hs) = (starts_with (h # hs) needle \<or> str_in needle hs)"

text \<open>\<^verbatim>\<open>x or ""\<close> for a value that may be \<^verbatim>\<open>None\<close>.\<close>

definition or_empty :: "'a list option \<Rightarrow> 'a list" where
  "or_empty v = (case v of None \<Rightarrow> [] | Some s \<Rightarrow> s)"

section \<open>Findings and the code context\<close>

text \<open>
  \<^verbatim>\<open>Finding.to_dict()\<close> of \<^verbatim>\<open>core/solodit_client.py\<close>: the dictionary the server
  scores. A field the corpus sent as \<^verbatim>\<open>null\<close> is \<^verbatim>\<open>None\<close>; the scorer reads every
  field through \<^verbatim>\<open>finding.get(k) or ""\<close>.
\<close>

record finding =
  title :: "string option"
  impact :: "string option"
  content :: "string option"
  firm_name :: "string option"
  protocol_name :: "string option"
  source_link :: "string option"
  github_link :: "string option"
  tags :: "string list option"
  slug :: "string option"

text \<open>
  \<^verbatim>\<open>CodeContext\<close> of \<^verbatim>\<open>core/function_analyzer.py\<close>. The fields \<^verbatim>\<open>state_changes\<close>,
  \<^verbatim>\<open>suggested_tags\<close> and \<^verbatim>\<open>suggested_keywords\<close> are built with \<^verbatim>\<open>list(set(...))\<close>, whose
  order is the hash order of the running interpreter; they are not part of the model.
\<close>

record CodeContext =
  function_name :: string
  function_type :: string
  protocol_type :: string
  risk_patterns :: "string list"
  external_calls :: "string list"
  confidence :: real

section \<open>Relevance score (\<^verbatim>\<open>server.py\<close>, \<^verbatim>\<open>_pitfall_relevance_score\<close>)\<close>

definition accounting_tokens :: "string list" where
  "accounting_tokens =
     [''accounting'', ''claim'', ''double'', ''share'', ''totalassets'', ''totalsupply'',
      ''rounding'']"

definition pitfall_relevance_score :: "finding \<Rightarrow> string \<Rightarrow> CodeContext \<Rightarrow> int" where
  "pitfall_relevance_score f sel_name ctx =
     (let title' = lower (or_empty (title f));
          content' = lower (or_empty (content f));
          tags' = lower (join '' '' (or_empty (tags f)));
          haystack = join '' '' [title', tags', take 1200 content'];
          score = 0;
          score =
            (if sel_name \<noteq> [] then
               (let sel = lower sel_name;
                    score = (if str_in sel title' then score + 80 else score);
                    score = (if str_in sel tags' then score + 50 else score);
                    score = (if str_in sel haystack then score + 30 else score);
                    score =
                      (if sel \<in> set [''balance'', ''balances'', ''_balances'']
                          \<and> list_ex (\<lambda>token. str_in token haystack) accounting_tokens
                       then score + 35 else score)
                in score)
             else score);
          score =
            foldl (\<lambda>score risk. if str_in (lower risk) haystack then score + 20 else score)
              score (take 3 (risk_patterns ctx));
          sev = upper (or_empty (impact f))
      in if sev = ''HIGH'' then score + 8
         else if sev = ''MEDIUM'' then score + 4
         else score)"

section \<open>Ranking (\<^verbatim>\<open>server.py\<close>, \<^verbatim>\<open>pitfall\<close> and \<^verbatim>\<open>fix_draft\<close>)\<close>

text \<open>
  \<^verbatim>\<open>scored.sort(key=lambda it: it[0], reverse=True)\<close>. Python's \<^verbatim>\<open>list.sort\<close> is a
  stable sort; with \<^verbatim>\<open>reverse=True\<close> CPython reverses the list, sorts it stably in
  ascending order of the key and reverses the result, which keeps equal keys in their
  original order. The stable ascending sort is HOL's \<^const>\<open>sort_key\<close>.
\<close>

definition sort_reverse :: "('a \<Rightarrow> int) \<Rightarrow> 'a list \<Rightarrow> 'a list" where
  "sort_reverse key xs = rev (sort_key key (rev xs))"

text \<open>The scored list of the deduplicated findings, in first-seen order, then the sort
  and the cut to the first \<open>k\<close> (5 in \<^verbatim>\<open>pitfall\<close>, 3 in \<^verbatim>\<open>fix_draft\<close>).\<close>

definition score_all :: "string \<Rightarrow> CodeContext \<Rightarrow> finding list \<Rightarrow> (int \<times> finding) list" where
  "score_all sel_name ctx fs = map (\<lambda>f. (pitfall_relevance_score f sel_name ctx, f)) fs"

definition rank_findings :: "nat \<Rightarrow> string \<Rightarrow> CodeContext \<Rightarrow> finding list \<Rightarrow> finding list" where
  "rank_findings k sel_name ctx fs =
     map snd (take k (sort_reverse fst (score_all sel_name ctx fs)))"

section \<open>Python floats\<close>

text \<open>
  A Python \<^verbatim>\<open>float\<close> is an IEEE 754 binary64 number. It is modelled by the real number it
  denotes; every literal and every result of an addition or a multiplication is rounded
  to the nearest number with a significand of 53 bits, a tie going to the even
  significand. The exponent does not go below -1022 (subnormal numbers); infinities and
  NaN are outside the model, the numbers of the analyzer stay below 2.
\<close>

fun binade :: "nat \<Rightarrow> real \<Rightarrow> int" where
  \<comment> \<open>the exponent \<open>e\<close> with \<open>2 ^ e \<le> x < 2 ^ (e + 1)\<close>, searched for in that many steps\<close>
  "binade 0 x = 0"
| "binade (Suc n) x =
     (if 2 \<le> x then binade n (x / 2) + 1
      else if x < 1 then binade n (2 * x) - 1
      else 0)"

definition pow2 :: "int \<Rightarrow> real" where
  "pow2 k = (if 0 \<le> k then 2 ^ nat k else 1 / 2 ^ nat (- k))"

definition round_half_even :: "real \<Rightarrow> int" where
  "round_half_even y =
     (let n = \<lfloor>y\<rfloor>; d = y - of_int n
      in if d < 1 / 2 then n
         else if 1 / 2 < d then n + 1
         else if even n then n else n + 1)"

definition binary64 :: "real \<Rightarrow> real" where
  "binary64 x =
     (if x = 0 then 0
      else
        (let ulp = pow2 (max (binade 1024 \<bar>x\<bar>) (- 1022) - 52)
         in sgn x * of_int (round_half_even (\<bar>x\<bar> / ulp)) * ulp))"

definition fadd :: "real \<Rightarrow> real \<Rightarrow> real" where
  "fadd a b = binary64 (a + b)"

definition fmul :: "real \<Rightarrow> real \<Rightarrow> real" where
  "fmul a b = binary64 (a * b)"

section \<open>Regular expressions (Python's \<^verbatim>\<open>re\<close>)\<close>

text \<open>
  The patterns of the repository are written as terms of \<open>rx\<close>, constructor by
  constructor as the pattern text reads. The matcher is a backtracking matcher as
  Python's: \<open>ms\<close> returns every way the pattern can match at the current position, in
  the order in which Python tries them (the left alternative first, a greedy star longest
  first, a lazy star shortest first), so the head of the list is the match Python
  reports.
\<close>

subsection \<open>Character classes\<close>

definition is_space :: "char \<Rightarrow> bool" where
  \<comment> \<open>\<^verbatim>\<open>\s\<close>: tab, newline, vertical tab, form feed, carriage return, the separators
      0x1C-0x1F, space, next line 0x85, no-break space 0xA0\<close>
  "is_space c =
     (let n = code_point c in (9 \<le> n \<and> n \<le> 13) \<or> (28 \<le> n \<and> n \<le> 32) \<or> n = 133 \<or> n = 160)"

definition is_digit :: "char \<Rightarrow> bool" where
  \<comment> \<open>\<^verbatim>\<open>\d\<close>: below 256 the decimal digits are 0-9\<close>
  "is_digit c = (let n = code_point c in 48 \<le> n \<and> n \<le> 57)"

definition is_word :: "char \<Rightarrow> bool" where
  \<comment> \<open>\<^verbatim>\<open>\w\<close>: alphanumeric or underscore; below 256 that is 0-9, A-Z, a-z, the
      underscore, 0xAA, 0xB2, 0xB3, 0xB5, 0xB9, 0xBA, 0xBC-0xBE, and 0xC0-0xFF without
      0xD7 and 0xF7\<close>
  "is_word c =
     (let n = code_point c
      in (48 \<le> n \<and> n \<le> 57) \<or> (65 \<le> n \<and> n \<le> 90) \<or> (97 \<le> n \<and> n \<le> 122) \<or> n = 95
         \<or> n = 170 \<or> n = 178 \<or> n = 179 \<or> n = 181 \<or> n = 185 \<or> n = 186
         \<or> (188 \<le> n \<and> n \<le> 190) \<or> (192 \<le> n \<and> n \<noteq> 215 \<and> n \<noteq> 247))"

record re_flags =
  IGNORECASE :: bool
  DOTALL :: bool

definition no_flags :: re_flags where
  "no_flags = \<lparr>IGNORECASE = False, DOTALL = False\<rparr>"

definition flag_I :: re_flags where
  "flag_I = \<lparr>IGNORECASE = True, DOTALL = False\<rparr>"

definition flag_S :: re_flags where
  "flag_S = \<lparr>IGNORECASE = False, DOTALL = True\<rparr>"

definition flag_IS :: re_flags where
  "flag_IS = \<lparr>IGNORECASE = True, DOTALL = True\<rparr>"

datatype cclass =
    Chr char          \<comment> \<open>a literal character\<close>
  | Dot               \<comment> \<open>\<^verbatim>\<open>.\<close>\<close>
  | Space             \<comment> \<open>\<^verbatim>\<open>\s\<close>\<close>
  | Word              \<comment> \<open>\<^verbatim>\<open>\w\<close>\<close>
  | Digit             \<comment> \<open>\<^verbatim>\<open>\d\<close>\<close>
  | OneOf string      \<comment> \<open>\<^verbatim>\<open>[...]\<close>, its members listed\<close>
  | NoneOf string     \<comment> \<open>\<^verbatim>\<open>[^...]\<close>\<close>

text \<open>Under \<^verbatim>\<open>IGNORECASE\<close> a character matches a literal or a set member when their
  lower-case forms agree (below 256 no other case relation exists).\<close>

definition chr_match :: "re_flags \<Rightarrow> char \<Rightarrow> char \<Rightarrow> bool" where
  "chr_match fl a c = (if IGNORECASE fl then lower_char a = lower_char c else a = c)"

fun cmatch :: "re_flags \<Rightarrow> cclass \<Rightarrow> char \<Rightarrow> bool" where
  "cmatch fl (Chr a) c = chr_match fl a c"
| "cmatch fl Dot c = (DOTALL fl \<or> c \<noteq> CHR 0x0A)"
| "cmatch fl Space c = is_space c"
| "cmatch fl Word c = is_word c"
| "cmatch fl Digit c = is_digit c"
| "cmatch fl (OneOf cs) c = list_ex (\<lambda>a. chr_match fl a c) cs"
| "cmatch fl (NoneOf cs) c = (\<not> list_ex (\<lambda>a. chr_match fl a c) cs)"

subsection \<open>Patterns\<close>

datatype rx =
    Atom cclass
  | Eps                 \<comment> \<open>the empty pattern\<close>
  | Seq rx rx
  | Alt rx rx           \<comment> \<open>\<^verbatim>\<open>a|b\<close>\<close>
  | Star rx             \<comment> \<open>\<^verbatim>\<open>a*\<close>, greedy\<close>
  | LazyStar rx         \<comment> \<open>\<^verbatim>\<open>a*?\<close>\<close>
  | Group nat rx        \<comment> \<open>a capturing group and its number\<close>
  | Lookahead rx        \<comment> \<open>\<^verbatim>\<open>(?=a)\<close>\<close>
  | EndAnchor           \<comment> \<open>\<^verbatim>\<open>$\<close>\<close>
  | WordBoundary        \<comment> \<open>\<^verbatim>\<open>\b\<close>\<close>

fun seqs :: "rx list \<Rightarrow> rx" where
  "seqs [] = Eps"
| "seqs [r] = r"
| "seqs (r # rs) = Seq r (seqs rs)"

fun alts :: "rx list \<Rightarrow> rx" where
  "alts [] = Eps"
| "alts [r] = r"
| "alts (r # rs) = Alt r (alts rs)"

definition lit :: "string \<Rightarrow> rx" where
  "lit s = seqs (map (\<lambda>c. Atom (Chr c)) s)"

definition plus :: "rx \<Rightarrow> rx" where
  \<comment> \<open>\<^verbatim>\<open>a+\<close>\<close>
  "plus r = Seq r (Star r)"

definition opt :: "rx \<Rightarrow> rx" where
  \<comment> \<open>\<^verbatim>\<open>a?\<close>\<close>
  "opt r = Alt r Eps"

subsection \<open>The matcher\<close>

text \<open>A matcher state: the character before the current position (for \<^verbatim>\<open>\b\<close>), the
  input from the current position on, and the groups captured so far (the latest
  capture of a group first).\<close>

type_synonym mstate = "char option \<times> string \<times> (nat \<times> string) list"

text \<open>The iterations of a star. An iteration that consumes nothing ends the loop, as in
  Python; the counter is the length of the remaining input, which bounds the number of
  consuming iterations.\<close>

fun star_iter :: "bool \<Rightarrow> nat \<Rightarrow> (mstate \<Rightarrow> mstate list) \<Rightarrow> mstate \<Rightarrow> mstate list" where
  "star_iter greedy 0 step st = [st]"
| "star_iter greedy (Suc n) step st =
     (let more =
            concat (map (star_iter greedy n step)
              (filter (\<lambda>st'. length (fst (snd st')) < length (fst (snd st))) (step st)))
      in if greedy then more @ [st] else st # more)"

fun ms :: "re_flags \<Rightarrow> rx \<Rightarrow> mstate \<Rightarrow> mstate list" where
  "ms fl (Atom a) (p, [], g) = []"
| "ms fl (Atom a) (p, c # cs, g) = (if cmatch fl a c then [(Some c, cs, g)] else [])"
| "ms fl Eps st = [st]"
| "ms fl (Seq a b) st = concat (map (\<lambda>st'. ms fl b st') (ms fl a st))"
| "ms fl (Alt a b) st = ms fl a st @ ms fl b st"
| "ms fl (Star a) (p, s, g) = star_iter True (length s) (\<lambda>st'. ms fl a st') (p, s, g)"
| "ms fl (LazyStar a) (p, s, g) = star_iter False (length s) (\<lambda>st'. ms fl a st') (p, s, g)"
| "ms fl (Group n a) (p, s, g) =
     map (\<lambda>(p', s', g'). (p', s', (n, take (length s - length s') s) # g')) (ms fl a (p, s, g))"
| "ms fl (Lookahead a) st = (if ms fl a st = [] then [] else [st])"
| "ms fl EndAnchor (p, s, g) = (if s = [] \<or> s = [CHR 0x0A] then [(p, s, g)] else [])"
| "ms fl WordBoundary (p, s, g) =
     (if (case p of None \<Rightarrow> False | Some c \<Rightarrow> is_word c)
           \<noteq> (case s of [] \<Rightarrow> False | c # _ \<Rightarrow> is_word c)
      then [(p, s, g)] else [])"

subsection \<open>\<^verbatim>\<open>re.search\<close>, \<^verbatim>\<open>finditer\<close>, \<^verbatim>\<open>re.sub\<close>\<close>

text \<open>A match object: \<^verbatim>\<open>m.start()\<close>, \<^verbatim>\<open>m.end()\<close> and the captured groups.\<close>

record rmatch =
  m_start :: nat
  m_end :: nat
  m_groups :: "(nat \<times> string) list"

definition group :: "rmatch \<Rightarrow> nat \<Rightarrow> string" where
  \<comment> \<open>\<^verbatim>\<open>m.group(n)\<close> for a group that took part in the match\<close>
  "group m n = (case map_of (m_groups m) n of None \<Rightarrow> [] | Some s \<Rightarrow> s)"

text \<open>\<open>scan\<close> tries the positions from left to right; \<open>i\<close> is the index of the current
  position, \<open>p\<close> the character before it.\<close>

fun scan :: "re_flags \<Rightarrow> rx \<Rightarrow> char option \<Rightarrow> string \<Rightarrow> nat \<Rightarrow> rmatch option" where
  "scan fl r p [] i =
     (case ms fl r (p, [], []) of
        [] \<Rightarrow> None
      | (p', s', g) # _ \<Rightarrow> Some \<lparr>m_start = i, m_end = i, m_groups = g\<rparr>)"
| "scan fl r p (c # cs) i =
     (case ms fl r (p, c # cs, []) of
        [] \<Rightarrow> scan fl r (Some c) cs (Suc i)
      | (p', s', g) # _ \<Rightarrow>
          Some \<lparr>m_start = i, m_end = i + (length (c # cs) - length s'), m_groups = g\<rparr>)"

definition re_search :: "re_flags \<Rightarrow> rx \<Rightarrow> string \<Rightarrow> rmatch option" where
  "re_search fl r s = scan fl r None s 0"

definition found :: "re_flags \<Rightarrow> rx \<Rightarrow> string \<Rightarrow> bool" where
  \<comment> \<open>the truth value of \<^verbatim>\<open>re.search(pattern, s, flags)\<close>\<close>
  "found fl r s = (re_search fl r s \<noteq> None)"

text \<open>\<^verbatim>\<open>finditer\<close>: the matches from left to right, none overlapping another. \<open>skip\<close>
  counts the characters of the last match still ahead; after an empty match the search
  goes on one character later.\<close>

fun find_all :: "re_flags \<Rightarrow> rx \<Rightarrow> char option \<Rightarrow> string \<Rightarrow> nat \<Rightarrow> nat \<Rightarrow> rmatch list" where
  "find_all fl r p [] i skip =
     (if skip = 0 then
        (case ms fl r (p, [], []) of
           [] \<Rightarrow> []
         | (p', s', g) # _ \<Rightarrow> [\<lparr>m_start = i, m_end = i, m_groups = g\<rparr>])
      else [])"
| "find_all fl r p (c # cs) i (Suc k) = find_all fl r (Some c) cs (Suc i) k"
| "find_all fl r p (c # cs) i 0 =
     (case ms fl r (p, c # cs, []) of
        [] \<Rightarrow> find_all fl r (Some c) cs (Suc i) 0
      | (p', s', g) # _ \<Rightarrow>
          (let n = length (c # cs) - length s'
           in \<lparr>m_start = i, m_end = i + n, m_groups = g\<rparr>
                # find_all fl r (Some c) cs (Suc i) (n - 1)))"

definition finditer :: "re_flags \<Rightarrow> rx \<Rightarrow> string \<Rightarrow> rmatch list" where
  "finditer fl r s = find_all fl r None s 0 0"

text \<open>\<^verbatim>\<open>re.sub(pattern, repl, s)\<close> with a constant replacement: the text between the
  matches is copied, each match is replaced.\<close>

fun sub_all :: "re_flags \<Rightarrow> rx \<Rightarrow> string \<Rightarrow> char option \<Rightarrow> string \<Rightarrow> nat \<Rightarrow> string" where
  "sub_all fl r repl p [] skip =
     (if skip = 0 \<and> ms fl r (p, [], []) \<noteq> [] then repl else [])"
| "sub_all fl r repl p (c # cs) (Suc k) = sub_all fl r repl (Some c) cs k"
| "sub_all fl r repl p (c # cs) 0 =
     (case ms fl r (p, c # cs, []) of
        [] \<Rightarrow> c # sub_all fl r repl (Some c) cs 0
      | (p', s', g) # _ \<Rightarrow>
          (let n = length (c # cs) - length s'
           in if n = 0 then repl @ c # sub_all fl r repl (Some c) cs 0
              else repl @ sub_all fl r repl (Some c) cs (n - 1)))"

definition re_sub :: "re_flags \<Rightarrow> rx \<Rightarrow> string \<Rightarrow> string \<Rightarrow> string" where
  "re_sub fl r repl s = sub_all fl r repl None s 0"

section \<open>Code analyzer (\<^verbatim>\<open>core/function_analyzer.py\<close>)\<close>

subsection \<open>Pattern registries\<close>

text \<open>The three dictionaries, as lists in the order of their entries (a Python
  dictionary iterates in insertion order). Every pattern is searched with
  \<^verbatim>\<open>re.IGNORECASE\<close>.\<close>

definition FUNCTION_TYPE_PATTERNS :: "(rx \<times> string) list" where
  "FUNCTION_TYPE_PATTERNS =
     [(alts [lit ''deposit'', lit ''stake'', lit ''supply''], ''deposit''),
      (alts [lit ''withdraw'', lit ''unstake'', lit ''redeem''], ''withdraw''),
      (lit ''mint'', ''mint''),
      (lit ''burn'', ''burn''),
      (lit ''swap'', ''swap''),
      (alts [lit ''addLiquidity'', lit ''add_liquidity''], ''add_liquidity''),
      (alts [lit ''removeLiquidity'', lit ''remove_liquidity''], ''remove_liquidity''),
      (lit ''borrow'', ''borrow''),
      (lit ''repay'', ''repay''),
      (lit ''liquidat'', ''liquidate''),
      (lit ''collateral'', ''collateral''),
      (alts [lit ''transfer'', lit ''send''], ''transfer''),
      (lit ''approve'', ''approve''),
      (alts [lit ''claim'', lit ''harvest''], ''claim''),
      (alts [lit ''balance'', lit ''balances''], ''accounting''),
      (alts [lit ''set'', lit ''update'', lit ''change''], ''admin''),
      (alts [lit ''pause'', lit ''unpause''], ''pause''),
      (alts [lit ''initialize'', lit ''init''], ''initialize'')]"

definition PROTOCOL_TYPE_PATTERNS :: "(rx \<times> string) list" where
  "PROTOCOL_TYPE_PATTERNS =
     [(alts [lit ''ERC4626'', lit ''convertToShares'', lit ''convertToAssets'',
             lit ''previewDeposit'', lit ''previewRedeem''], ''Vault''),
      (alts [lit ''vault'', lit ''Vault''], ''Vault''),
      (alts [lit ''borrow'', lit ''repay'', lit ''liquidat'', lit ''collateral'',
             lit ''healthFactor'', lit ''LTV''], ''Lending''),
      (alts [lit ''Aave'', lit ''Compound'', lit ''Euler''], ''Lending''),
      (alts [lit ''swap'', lit ''getAmountOut'', lit ''getAmountIn'', lit ''reserves'',
             seqs [lit ''k'', Star (Atom Space), lit ''='']], ''DEX''),
      (alts [lit ''Uniswap'', lit ''Curve'', lit ''Balancer'', lit ''SushiSwap''], ''DEX''),
      (alts [lit ''addLiquidity'', lit ''removeLiquidity'', lit ''LP'', lit ''liquidity''],
       ''DEX''),
      (alts [lit ''stake'', lit ''unstake'', lit ''reward'', lit ''rewardRate'', lit ''earned''],
       ''Staking''),
      (alts [lit ''bridge'', seqs [lit ''cross'', Star (Atom Dot), lit ''chain''],
             lit ''relay'', lit ''message''], ''Bridge''),
      (alts [lit ''oracle'', lit ''price'', lit ''latestRoundData'', lit ''chainlink'',
             lit ''getPrice''], ''Oracle''),
      (alts [lit ''ERC721'', lit ''ERC1155'', lit ''tokenURI'', lit ''ownerOf''], ''NFT'')]"

text \<open>\<^verbatim>\<open>RISK_PATTERNS\<close>: pattern, tag, search keywords.\<close>

definition RISK_PATTERNS :: "(rx \<times> string \<times> string list) list" where
  "RISK_PATTERNS =
     [(alts [lit ''.call{'', lit ''.call('', seqs [lit ''(bool'', plus (Atom Space), lit ''success'']],
       ''Reentrancy'', [''reentrancy'', ''external call'']),
      (alts [lit ''transferFrom'', lit ''safeTransferFrom'', lit ''transfer(''],
       ''Reentrancy'', [''token transfer'', ''reentrancy'']),
      (alts [lit ''latestRoundData'', lit ''getPrice'', lit ''oracle''],
       ''Oracle'', [''oracle manipulation'', ''price'']),
      (alts [lit ''TWAP'', lit ''twap''], ''Oracle'', [''TWAP'', ''time-weighted'']),
      (alts [seqs [lit ''/'', Star (Atom Space), plus (Atom Digit)], lit ''mulDiv'',
             seqs [lit ''/'', Star (Atom Space), lit ''1e'']],
       ''Precision'', [''precision loss'', ''rounding'']),
      (seqs [lit ''unchecked'', Star (Atom Space), lit ''{''],
       ''Precision'', [''overflow'', ''underflow'']),
      (alts [lit ''flashLoan'', seqs [lit ''flash'', Star (Atom Dot), lit ''loan'']],
       ''Flash Loan'', [''flash loan'']),
      (alts [lit ''onlyOwner'', lit ''require(msg.sender'', lit ''onlyRole''],
       ''Access Control'', [''access control'']),
      (alts [lit ''Ownable'', lit ''AccessControl''], ''Access Control'', [''access control'']),
      (alts [lit ''slippage'', lit ''deadline'', lit ''minAmount'', lit ''amountOutMin''],
       ''Slippage'', [''slippage'', ''frontrunning'']),
      (alts [lit ''block.timestamp'', lit ''now''], ''Timestamp'', [''timestamp'']),
      (lit ''delegatecall'', ''Delegatecall'', [''delegatecall'', ''proxy'']),
      (alts [lit ''ecrecover'', lit ''signature'', lit ''ECDSA''],
       ''Signature'', [''signature'', ''replay'']),
      (alts [seqs [WordBoundary, lit ''balance'', opt (alts [lit ''s'', lit ''Of'']), WordBoundary],
             seqs [lit ''_balances'', WordBoundary],
             lit ''userBalance'', lit ''totalBalance'', lit ''pendingBalance''],
       ''Balance Accounting'',
       [''balance accounting'', ''state sync'', ''double claim'', ''incorrect accounting'']),
      (alts [lit ''shareBalance'', lit ''creatorBalance'', lit ''ownerBalance'', lit ''claimable'',
             lit ''accrued'', lit ''pending''],
       ''Balance Accounting'', [''claim accounting'', ''reward accounting'', ''balance desync'']),
      (alts [lit ''totalSupply'', lit ''totalAssets'', lit ''convertToShares'',
             lit ''convertToAssets''],
       ''Balance Accounting'', [''share accounting'', ''asset accounting'', ''vault accounting''])]"

subsection \<open>\<^verbatim>\<open>FunctionAnalyzer.analyze\<close>\<close>

text \<open>\<^verbatim>\<open>for pattern, label in table.items(): if re.search(...): field = label; break\<close>: the
  label of the first pattern that matches, the empty string when none does.\<close>

fun first_label :: "(rx \<times> string) list \<Rightarrow> string \<Rightarrow> string" where
  "first_label [] code = []"
| "first_label ((pattern, label) # rest) code =
     (if found flag_I pattern code then label else first_label rest code)"

text \<open>The loop over \<^verbatim>\<open>RISK_PATTERNS\<close>: \<^verbatim>\<open>ctx.risk_patterns.append(tag)\<close> for every
  pattern that matches.\<close>

definition risk_tags :: "string \<Rightarrow> string list" where
  "risk_tags code =
     foldl (\<lambda>tags (pattern, tag, kws). if found flag_I pattern code then tags @ [tag] else tags)
       [] RISK_PATTERNS"

definition function_name_rx :: rx where
  \<comment> \<open>\<^verbatim>\<open>function\s+(\w+)\<close>\<close>
  "function_name_rx = seqs [lit ''function'', plus (Atom Space), Group 1 (plus (Atom Word))]"

definition external_call_rx :: rx where
  \<comment> \<open>\<^verbatim>\<open>(\w+)\s*\.\s*(\w+)\s*\(\<close>\<close>
  "external_call_rx =
     seqs [Group 1 (plus (Atom Word)), Star (Atom Space), lit ''.'', Star (Atom Space),
           Group 2 (plus (Atom Word)), Star (Atom Space), lit ''('']"

definition pseudo_objects :: "string list" where
  "pseudo_objects = [''msg'', ''block'', ''tx'', ''abi'', ''require'', ''assert'']"

definition find_external_calls :: "string \<Rightarrow> string list" where
  "find_external_calls code =
     take 10
       (map (\<lambda>m. group m 1 @ ''.'' @ group m 2)
          (filter (\<lambda>m. group m 1 \<notin> set pseudo_objects)
             (finditer no_flags external_call_rx code)))"

text \<open>The confidence score; Python's floating-point numbers are modelled by the real
  numbers they stand for.\<close>

definition analyze :: "string \<Rightarrow> CodeContext" where
  "analyze code =
     (let name = (case re_search no_flags function_name_rx code of
                    None \<Rightarrow> [] | Some m \<Rightarrow> group m 1);
          ftype = first_label FUNCTION_TYPE_PATTERNS code;
          proto = first_label PROTOCOL_TYPE_PATTERNS code;
          risks = risk_tags code;
          calls = find_external_calls code;
          c = binary64 0.0;
          c = (if name \<noteq> [] then fadd c (binary64 0.1) else c);
          c = (if ftype \<noteq> [] then fadd c (binary64 0.2) else c);
          c = (if proto \<noteq> [] then fadd c (binary64 0.3) else c);
          c = (if risks \<noteq> [] then
                 fadd c (min (fmul (binary64 (real (length risks))) (binary64 0.1)) (binary64 0.3))
               else c);
          c = (if calls \<noteq> [] then fadd c (binary64 0.1) else c)
      in \<lparr>function_name = name, function_type = ftype, protocol_type = proto,
          risk_patterns = risks, external_calls = calls, confidence = min c (binary64 1.0)\<rparr>)"

section \<open>Contract parser: ERC detection (\<^verbatim>\<open>scout.py\<close>, \<^verbatim>\<open>_parse_contract\<close>)\<close>

text \<open>\<^verbatim>\<open>_ERC_PATTERNS\<close>: each standard with its defining sub-patterns, in the order of the
  dictionary.\<close>

definition ERC_PATTERNS :: "(string \<times> rx list) list" where
  "ERC_PATTERNS =
     [(''ERC20'',
         [lit ''totalSupply'', lit ''balanceOf'',
          seqs [lit ''transfer'', Star (Atom Space), lit ''(''],
          seqs [lit ''approve'', Star (Atom Space), lit ''(''],
          lit ''transferFrom'']),
      (''ERC721'',
         [lit ''ownerOf'', lit ''safeTransferFrom'', lit ''tokenURI'', lit ''ERC721'']),
      (''ERC1155'',
         [lit ''balanceOfBatch'', lit ''safeBatchTransferFrom'', lit ''ERC1155'']),
      (''ERC4626'',
         [lit ''convertToShares'', lit ''convertToAssets'', lit ''maxDeposit'',
          lit ''previewMint''])]"

definition count_matches :: "string \<Rightarrow> rx list \<Rightarrow> nat" where
  \<comment> \<open>\<^verbatim>\<open>sum(1 for p in patterns if re.search(p, code))\<close>\<close>
  "count_matches code patterns = length (filter (\<lambda>p. found no_flags p code) patterns)"

text \<open>The field \<^verbatim>\<open>ercs_detected\<close> of the \<^verbatim>\<open>ContractInfo\<close> that \<^verbatim>\<open>_parse_contract\<close>
  returns; the other fields of the record do not enter it.\<close>

definition ercs_detected :: "string \<Rightarrow> string list" where
  "ercs_detected code =
     foldl (\<lambda>detected (erc_name, patterns).
              if count_matches code patterns \<ge> 2 then detected @ [erc_name] else detected)
       [] ERC_PATTERNS"

section \<open>Quiz extraction (\<^verbatim>\<open>modules/learning.py\<close>)\<close>

text \<open>The exceptions the quiz code can meet: \<^verbatim>\<open>int()\<close> raises \<^verbatim>\<open>ValueError\<close>, \<^verbatim>\<open>ord()\<close>
  raises \<^verbatim>\<open>TypeError\<close> on a string that is not one character long.\<close>

datatype py_exception = ValueError | TypeError

definition ord :: "string \<Rightarrow> py_exception + int" where
  "ord s = (case s of [c] \<Rightarrow> Inr (code_point c) | _ \<Rightarrow> Inl TypeError)"

subsection \<open>\<^verbatim>\<open>_normalize_correct_index\<close>\<close>

definition answer_hint_rx :: rx where
  \<comment> \<open>\<^verbatim>\<open>(?:answer|correct)\s*[:\-]\s*([A-D])\<close>, the range \<^verbatim>\<open>A-D\<close> written out\<close>
  "answer_hint_rx =
     seqs [alts [lit ''answer'', lit ''correct''], Star (Atom Space), Atom (OneOf '':-''),
           Star (Atom Space), Group 1 (Atom (OneOf ''ABCD''))]"

text \<open>The three rules on the raw index: a valid 1-based index, a valid 0-based index, the
  last-resort clamp.\<close>

definition index_from_raw :: "int \<Rightarrow> int \<Rightarrow> int" where
  "index_from_raw raw_correct options_count =
     (if 1 \<le> raw_correct \<and> raw_correct \<le> options_count then raw_correct - 1
      else if 0 \<le> raw_correct \<and> raw_correct < options_count then raw_correct
      else max 0 (min raw_correct (options_count - 1)))"

definition normalize_correct_index :: "int \<Rightarrow> int \<Rightarrow> string \<Rightarrow> string \<Rightarrow> py_exception + int" where
  "normalize_correct_index raw_correct options_count block_html explanation_html =
     (if options_count \<le> 0 then Inr 0
      else
        (case re_search flag_I answer_hint_rx (block_html @ '' '' @ explanation_html) of
           None \<Rightarrow> Inr (index_from_raw raw_correct options_count)
         | Some letter_m \<Rightarrow>
             (case ord (upper (group letter_m 1)) of
                Inl e \<Rightarrow> Inl e
              | Inr letter_code \<Rightarrow>
                  (let idx = letter_code - code_point CHR ''A''
                   in if 0 \<le> idx \<and> idx < options_count then Inr idx
                      else Inr (index_from_raw raw_correct options_count)))))"

section \<open>Cross-reference queries (\<^verbatim>\<open>scout.py\<close> \<^verbatim>\<open>generate_report\<close>, \<^verbatim>\<open>server.py\<close> \<^verbatim>\<open>pitfall\<close>)\<close>

text \<open>
  The findings client is an external collaborator: \<^verbatim>\<open>search(keywords, impact,
  quality_score, page_size)\<close> either returns the findings of its answer or raises. What
  it raises (\<^verbatim>\<open>SoloditAuthError\<close>, \<^verbatim>\<open>SoloditRateLimitError\<close>, the HTTP client's status
  and transport errors) is an \<^verbatim>\<open>Exception\<close>. The client is a parameter of the model: a
  function of the keywords, the quality score and the page size (the impact filter is
  the same in every call).
\<close>

datatype search_exception =
    SoloditAuthError
  | SoloditRateLimitError
  | HTTPStatusError nat
  | TransportError

type_synonym search_fn = "string \<Rightarrow> nat \<Rightarrow> nat \<Rightarrow> search_exception + finding list"

text \<open>A \<^verbatim>\<open>for\<close> loop whose body may raise: the first exception that leaves the body ends
  the loop and is the loop's outcome.\<close>

fun for_each :: "('s \<Rightarrow> 'a \<Rightarrow> 'e + 's) \<Rightarrow> 's \<Rightarrow> 'a list \<Rightarrow> 'e + 's" where
  "for_each body s [] = Inr s"
| "for_each body s (x # xs) =
     (case body s x of Inl e \<Rightarrow> Inl e | Inr s' \<Rightarrow> for_each body s' xs)"

subsection \<open>Scout report\<close>

text \<open>The state of the loop of \<^verbatim>\<open>generate_report\<close>: \<^verbatim>\<open>seen_titles\<close>, \<^verbatim>\<open>all_findings\<close>, and
  the warnings logged.\<close>

record scout_acc =
  seen_titles :: "string option set"
  all_findings :: "finding list"
  scout_warnings :: "(string \<times> search_exception) list"

definition scout_keep :: "scout_acc \<Rightarrow> finding \<Rightarrow> scout_acc" where
  "scout_keep acc f =
     (if title f \<notin> seen_titles acc
      then acc\<lparr>seen_titles := insert (title f) (seen_titles acc),
               all_findings := all_findings acc @ [f]\<rparr>
      else acc)"

text \<open>One turn of the loop: the \<^verbatim>\<open>try\<close> body calls \<^verbatim>\<open>search\<close> and keeps the findings of
  new titles; \<^verbatim>\<open>except Exception\<close> logs a warning and the loop goes on.\<close>

definition scout_try :: "search_fn \<Rightarrow> nat \<Rightarrow> scout_acc \<Rightarrow> string \<Rightarrow> search_exception + scout_acc" where
  "scout_try search per_query_size acc query =
     (case search query 3 per_query_size of
        Inr fs \<Rightarrow> Inr (foldl scout_keep acc fs)
      | Inl e \<Rightarrow> Inr (acc\<lparr>scout_warnings := scout_warnings acc @ [(query, e)]\<rparr>))"

definition per_query_size :: "nat \<Rightarrow> string list \<Rightarrow> nat" where
  \<comment> \<open>\<^verbatim>\<open>max(3, page_size // max(len(unique_queries), 1))\<close>\<close>
  "per_query_size page_size unique_queries = max 3 (page_size div max (length unique_queries) 1)"

definition scout_fetch :: "search_fn \<Rightarrow> nat \<Rightarrow> string list \<Rightarrow> search_exception + scout_acc" where
  "scout_fetch search page_size unique_queries =
     for_each (scout_try search (per_query_size page_size unique_queries))
       \<lparr>seen_titles = {}, all_findings = [], scout_warnings = []\<rparr>
       (take 8 unique_queries)"

subsection \<open>Pitfall\<close>

definition finding_key :: "finding \<Rightarrow> string option" where
  \<comment> \<open>\<^verbatim>\<open>f_dict.get("slug") or f_dict.get("title", "")\<close>\<close>
  "finding_key f =
     (case slug f of
        None \<Rightarrow> title f
      | Some s \<Rightarrow> if s \<noteq> [] then Some s else title f)"

record pitfall_acc =
  seen_keys :: "string option set"
  scored :: "(int \<times> finding) list"
  pitfall_warnings :: "(string \<times> search_exception) list"

definition pitfall_keep :: "string \<Rightarrow> CodeContext \<Rightarrow> pitfall_acc \<Rightarrow> finding \<Rightarrow> pitfall_acc" where
  "pitfall_keep sel_name ctx acc f =
     (if finding_key f \<in> seen_keys acc then acc
      else acc\<lparr>seen_keys := insert (finding_key f) (seen_keys acc),
               scored := scored acc @ [(pitfall_relevance_score f sel_name ctx, f)]\<rparr>)"

text \<open>One turn: \<^verbatim>\<open>try: result = search(...)\<close>, \<^verbatim>\<open>except Exception: warning; continue\<close>,
  then the loop over the findings.\<close>

definition pitfall_try ::
    "search_fn \<Rightarrow> string \<Rightarrow> CodeContext \<Rightarrow> pitfall_acc \<Rightarrow> string \<Rightarrow> search_exception + pitfall_acc" where
  "pitfall_try search sel_name ctx acc query =
     (case search query 2 4 of
        Inl e \<Rightarrow> Inr (acc\<lparr>pitfall_warnings := pitfall_warnings acc @ [(query, e)]\<rparr>)
      | Inr fs \<Rightarrow> Inr (foldl (pitfall_keep sel_name ctx) acc fs))"

definition pitfall_fetch ::
    "search_fn \<Rightarrow> string \<Rightarrow> CodeContext \<Rightarrow> string list \<Rightarrow> search_exception + pitfall_acc" where
  "pitfall_fetch search sel_name ctx unique_queries =
     for_each (pitfall_try search sel_name ctx)
       \<lparr>seen_keys = {}, scored = [], pitfall_warnings = []\<rparr>
       (take 6 unique_queries)"

text \<open>The findings \<^verbatim>\<open>pitfall\<close> goes on with: the five best of the scored list.\<close>

definition pitfall_findings ::
    "search_fn \<Rightarrow> string \<Rightarrow> CodeContext \<Rightarrow> string list \<Rightarrow> search_exception + finding list" where
  "pitfall_findings search sel_name ctx unique_queries =
     (case pitfall_fetch search sel_name ctx unique_queries of
        Inl e \<Rightarrow> Inl e
      | Inr acc \<Rightarrow> Inr (map snd (take 5 (sort_reverse fst (scored acc)))))"

section \<open>Relevance score on any text\<close>

text \<open>
  \<^verbatim>\<open>_pitfall_relevance_score\<close> once more, with the text and the built-ins of Python left
  open: a \<^verbatim>\<open>str\<close> is a list of code points of any type, \<^verbatim>\<open>str.lower\<close> and \<^verbatim>\<open>str.upper\<close>
  are the parameters \<open>low\<close> and \<open>up\<close>, and \<open>str\<close> gives the text of a string literal of the
  code. Nothing is assumed about \<open>low\<close> and \<open>up\<close>: Python's lower-casing can change the
  length of a text (U+0130 becomes two code points) and depends on the neighbours of a
  letter (the final sigma). The dictionary holds the four keys the function reads.
\<close>

record 'c finding_dict =
  d_title :: "'c list option"
  d_content :: "'c list option"
  d_tags :: "'c list list option"
  d_impact :: "'c list option"

definition pitfall_relevance_score_u ::
    "('c list \<Rightarrow> 'c list) \<Rightarrow> ('c list \<Rightarrow> 'c list) \<Rightarrow> (string \<Rightarrow> 'c list)
       \<Rightarrow> 'c finding_dict \<Rightarrow> 'c list \<Rightarrow> 'c list list \<Rightarrow> int" where
  "pitfall_relevance_score_u low up str finding sel_name ctx_risk_patterns =
     (let title' = low (or_empty (d_title finding));
          content' = low (or_empty (d_content finding));
          tags' = low (join (str '' '') (or_empty (d_tags finding)));
          haystack = join (str '' '') [title', tags', take 1200 content'];
          score = 0;
          score =
            (if sel_name \<noteq> [] then
               (let sel = low sel_name;
                    score = (if str_in sel title' then score + 80 else score);
                    score = (if str_in sel tags' then score + 50 else score);
                    score = (if str_in sel haystack then score + 30 else score);
                    score =
                      (if sel \<in> set (map str [''balance'', ''balances'', ''_balances''])
                          \<and> list_ex (\<lambda>token. str_in token haystack) (map str accounting_tokens)
                       then score + 35 else score)
                in score)
             else score);
          score =
            foldl (\<lambda>score risk. if str_in (low risk) haystack then score + 20 else score)
              score (take 3 ctx_risk_patterns);
          sev = up (or_empty (d_impact finding))
      in if sev = str ''HIGH'' then score + 8
         else if sev = str ''MEDIUM'' then score + 4
         else score)"

text \<open>The dictionary of a finding of the 8-bit model.\<close>

definition to_dict :: "finding \<Rightarrow> char finding_dict" where
  "to_dict f = \<lparr>d_title = title f, d_content = content f, d_tags = tags f, d_impact = impact f\<rparr>"

text \<open>
  Texts with code points of any size, as integers. The two case mappings are Python's
  on the code points below 256 and on U+0130, the capital I with a dot, whose lower case
  is \<^verbatim>\<open>i\<close> followed by the combining dot U+0307; other code points are left as they are.
\<close>

definition text_of :: "string \<Rightarrow> int list" where
  "text_of s = map code_point s"

definition lower_point :: "int \<Rightarrow> int list" where
  "lower_point n =
     (if n = 304 then [105, 775]
      else if (65 \<le> n \<and> n \<le> 90) \<or> (192 \<le> n \<and> n \<le> 222 \<and> n \<noteq> 215) then [n + 32]
      else [n])"

definition lower_text :: "int list \<Rightarrow> int list" where
  "lower_text s = concat (map lower_point s)"

definition upper_point :: "int \<Rightarrow> int list" where
  "upper_point n =
     (if (97 \<le> n \<and> n \<le> 122) \<or> (224 \<le> n \<and> n \<le> 254 \<and> n \<noteq> 247) then [n - 32]
      else if n = 223 then [83, 83]
      else if n = 181 then [924]
      else if n = 255 then [376]
      else [n])"

definition upper_text :: "int list \<Rightarrow> int list" where
  "upper_text s = concat (map upper_point s)"

subsection \<open>\<^verbatim>\<open>_parse_quiz\<close>\<close>

record QuizQuestion =
  question :: string
  code_snippet :: string
  options :: "string list"
  correct_index :: int
  explanation :: string

text \<open>\<^verbatim>\<open>str.strip()\<close>: the white space of \<^verbatim>\<open>str.isspace\<close>, below 256 that of \<^verbatim>\<open>\s\<close>.\<close>

definition strip :: "string \<Rightarrow> string" where
  "strip s = rev (dropWhile is_space (rev (dropWhile is_space s)))"

text \<open>
  \<^verbatim>\<open>int(s)\<close> on a text of decimal digits, which is what \<^verbatim>\<open>\d+\<close> captures. CPython (3.11,
  and the security releases of the older versions) refuses a text of more than 4300
  digits with a \<^verbatim>\<open>ValueError\<close>, the default of \<^verbatim>\<open>sys.get_int_max_str_digits()\<close>; a text
  that is no number is a \<^verbatim>\<open>ValueError\<close> too. Signs, white space and underscores, which
  \<^verbatim>\<open>int\<close> accepts, do not occur in a text of digits and are left out.
\<close>

definition int_max_str_digits :: nat where
  "int_max_str_digits = 4300"

definition py_int :: "string \<Rightarrow> py_exception + int" where
  "py_int s =
     (if s = [] \<or> \<not> list_all is_digit s then Inl ValueError
      else if int_max_str_digits < length s then Inl ValueError
      else Inr (foldl (\<lambda>n c. 10 * n + (code_point c - code_point CHR ''0'')) 0 s))"

definition q_pattern :: rx where
  \<comment> \<open>\<^verbatim>\<open><div\s+class="quiz-question"[^>]*data-correct="(\d+)"[^>]*>(.*?)</div>\s*(?=<div\s+class="quiz-question"|$)\<close>\<close>
  "q_pattern =
     seqs [lit ''<div'', plus (Atom Space), lit ''class=\"quiz-question\"'',
           Star (Atom (NoneOf ''>'')), lit ''data-correct=\"'', Group 1 (plus (Atom Digit)),
           lit ''\"'', Star (Atom (NoneOf ''>'')), lit ''>'', Group 2 (LazyStar (Atom Dot)),
           lit ''</div>'', Star (Atom Space),
           Lookahead (alts [seqs [lit ''<div'', plus (Atom Space), lit ''class=\"quiz-question\"''],
                            EndAnchor])]"

definition q_text_rx :: rx where
  \<comment> \<open>\<^verbatim>\<open><(?:p|h4)[^>]*>(.*?)</(?:p|h4)>\<close>\<close>
  "q_text_rx =
     seqs [lit ''<'', alts [lit ''p'', lit ''h4''], Star (Atom (NoneOf ''>'')), lit ''>'',
           Group 1 (LazyStar (Atom Dot)), lit ''</'', alts [lit ''p'', lit ''h4''], lit ''>'']"

definition code_rx :: rx where
  \<comment> \<open>\<^verbatim>\<open><pre><code[^>]*>(.*?)</code></pre>\<close>\<close>
  "code_rx =
     seqs [lit ''<pre><code'', Star (Atom (NoneOf ''>'')), lit ''>'',
           Group 1 (LazyStar (Atom Dot)), lit ''</code></pre>'']"

definition opt_pattern :: rx where
  \<comment> \<open>\<^verbatim>\<open><div\s+class="quiz-option"[^>]*>(.*?)</div>\<close>\<close>
  "opt_pattern =
     seqs [lit ''<div'', plus (Atom Space), lit ''class=\"quiz-option\"'',
           Star (Atom (NoneOf ''>'')), lit ''>'', Group 1 (LazyStar (Atom Dot)), lit ''</div>'']"

definition explanation_rx :: rx where
  \<comment> \<open>\<^verbatim>\<open><div\s+class="quiz-explanation"[^>]*>(.*?)</div>\<close>\<close>
  "explanation_rx =
     seqs [lit ''<div'', plus (Atom Space), lit ''class=\"quiz-explanation\"'',
           Star (Atom (NoneOf ''>'')), lit ''>'', Group 1 (LazyStar (Atom Dot)), lit ''</div>'']"

text \<open>The body of the loop over the matches of \<^verbatim>\<open>q_pattern\<close>: the questions so far, and
  the next match.\<close>

definition parse_block :: "QuizQuestion list \<Rightarrow> rmatch \<Rightarrow> py_exception + QuizQuestion list" where
  "parse_block questions match =
     (case py_int (group match 1) of
        Inl e \<Rightarrow> Inl e
      | Inr raw_correct \<Rightarrow>
          (let block = group match 2;
               question = (case re_search flag_S q_text_rx block of
                             Some q_text_m \<Rightarrow> strip (group q_text_m 1) | None \<Rightarrow> ''Question'');
               code = (case re_search flag_S code_rx block of
                         Some code_m \<Rightarrow> strip (group code_m 1) | None \<Rightarrow> []);
               options = map (\<lambda>m. strip (group m 1)) (finditer flag_S opt_pattern block)
           in if options \<noteq> [] then
                (let explanation = (case re_search flag_S explanation_rx block of
                                      Some exp_m \<Rightarrow> strip (group exp_m 1) | None \<Rightarrow> [])
                 in case normalize_correct_index raw_correct (int (length options)) block explanation of
                      Inl e \<Rightarrow> Inl e
                    | Inr correct_idx \<Rightarrow>
                        Inr (questions @
                               [\<lparr>question = question, code_snippet = code, options = options,
                                 correct_index = correct_idx, explanation = explanation\<rparr>]))
              else Inr questions))"

definition parse_quiz :: "string \<Rightarrow> py_exception + QuizQuestion list" where
  "parse_quiz html = for_each parse_block [] (finditer flag_S q_pattern html)"

section \<open>The vocabulary of the claims\<close>

subsection \<open>Relevance score\<close>

text \<open>A text occurs in another; the haystack of a finding: the lower-cased title, the
  lower-cased tags joined by spaces and the first 1200 code points of the lower-cased
  content, with a space between them; a balance-like selection name; the severity
  bonus.\<close>

definition occurs_in :: "'a list \<Rightarrow> 'a list \<Rightarrow> bool" where
  "occurs_in s t \<longleftrightarrow> (\<exists>p q. t = p @ s @ q)"

definition lowered_haystack ::
    "('c list \<Rightarrow> 'c list) \<Rightarrow> (string \<Rightarrow> 'c list) \<Rightarrow> 'c finding_dict \<Rightarrow> 'c list" where
  "lowered_haystack low str d =
     low (or_empty (d_title d)) @ str '' '' @ low (join (str '' '') (or_empty (d_tags d)))
       @ str '' '' @ take 1200 (low (or_empty (d_content d)))"

definition balance_like :: "('c list \<Rightarrow> 'c list) \<Rightarrow> (string \<Rightarrow> 'c list) \<Rightarrow> 'c list \<Rightarrow> bool" where
  "balance_like low str s \<longleftrightarrow>
     low s = str ''balance'' \<or> low s = str ''balances'' \<or> low s = str ''_balances''"

definition severity_bonus ::
    "('c list \<Rightarrow> 'c list) \<Rightarrow> (string \<Rightarrow> 'c list) \<Rightarrow> 'c finding_dict \<Rightarrow> int" where
  "severity_bonus up str d =
     (if up (or_empty (d_impact d)) = str ''HIGH'' then 8
      else if up (or_empty (d_impact d)) = str ''MEDIUM'' then 4 else 0)"

text \<open>A content of 600 capital I with a dot followed by \<^verbatim>\<open>balance\<close>: the word lies within
  the first 1200 code points of the content, and behind the first 1200 code points of
  the lower-cased content.\<close>

definition dotted_finding :: "int finding_dict" where
  "dotted_finding =
     \<lparr>d_title = None, d_content = Some (replicate 600 304 @ text_of ''balance''),
      d_tags = None, d_impact = None\<rparr>"

definition example_finding :: finding where
  "example_finding =
     \<lparr>title = Some ''Balance bug'', impact = Some ''High'', content = Some ''double claim'',
      firm_name = None, protocol_name = None, source_link = None, github_link = None,
      tags = Some [''Accounting'', ''X''], slug = Some ''s1''\<rparr>"

definition example_ctx :: CodeContext where
  "example_ctx =
     \<lparr>function_name = [], function_type = [], protocol_type = [],
      risk_patterns = [''Reentrancy'', ''Claim''], external_calls = [], confidence = 0\<rparr>"

subsection \<open>Ranking\<close>

text \<open>Three findings, the first and the third with the same score.\<close>

definition tie_first :: finding where
  "tie_first =
     \<lparr>title = Some ''Fee math overflow'', impact = Some ''HIGH'', content = Some ''fee'',
      firm_name = None, protocol_name = None, source_link = None, github_link = None,
      tags = Some [], slug = Some ''a''\<rparr>"

definition best_match :: finding where
  "best_match =
     \<lparr>title = Some ''Balance not updated'', impact = Some ''HIGH'', content = Some ''stale'',
      firm_name = None, protocol_name = None, source_link = None, github_link = None,
      tags = Some [], slug = Some ''b''\<rparr>"

definition tie_second :: finding where
  "tie_second =
     \<lparr>title = Some ''Missing event'', impact = Some ''HIGH'', content = Some ''log'',
      firm_name = None, protocol_name = None, source_link = None, github_link = None,
      tags = Some [], slug = Some ''c''\<rparr>"

subsection \<open>Cross-reference queries\<close>

text \<open>The findings of a query, none when its search fails; a client whose failures are
  empty answers; the elements of a list whose key was not seen before, in their order.\<close>

definition answered :: "search_fn \<Rightarrow> nat \<Rightarrow> nat \<Rightarrow> string \<Rightarrow> finding list" where
  "answered search quality psize query =
     (case search query quality psize of Inl e \<Rightarrow> [] | Inr fs \<Rightarrow> fs)"

definition failures_as_empty :: "search_fn \<Rightarrow> search_fn" where
  "failures_as_empty search = (\<lambda>query quality psize. Inr (answered search quality psize query))"

fun first_seen :: "('a \<Rightarrow> 'k) \<Rightarrow> 'k set \<Rightarrow> 'a list \<Rightarrow> 'a list" where
  "first_seen key seen [] = []"
| "first_seen key seen (x # xs) =
     (if key x \<in> seen then first_seen key seen xs
      else x # first_seen key (insert (key x) seen) xs)"

definition scout_findings :: "search_fn \<Rightarrow> nat \<Rightarrow> string list \<Rightarrow> finding list option" where
  "scout_findings search page_size unique_queries =
     (case scout_fetch search page_size unique_queries of
        Inl e \<Rightarrow> None
      | Inr acc \<Rightarrow> Some (all_findings acc))"

definition pitfall_scored ::
    "search_fn \<Rightarrow> string \<Rightarrow> CodeContext \<Rightarrow> string list \<Rightarrow> (int \<times> finding) list option" where
  "pitfall_scored search sel_name ctx unique_queries =
     (case pitfall_fetch search sel_name ctx unique_queries of
        Inl e \<Rightarrow> None
      | Inr acc \<Rightarrow> Some (scored acc))"

text \<open>A client for which the second of three queries fails.\<close>

definition flaky_search :: search_fn where
  "flaky_search query quality psize =
     (if query = ''Reentrancy'' then Inr [tie_first, best_match]
      else if query = ''Oracle'' then Inl SoloditRateLimitError
      else Inr [best_match, tie_second])"

subsection \<open>Confidence\<close>

text \<open>No pattern of the analyzer matches the code; the addends of a context that apply,
  in the order of the code, and their sum in float arithmetic from left to right; a code
  to which all five addends apply.\<close>

definition no_pattern_matches :: "string \<Rightarrow> bool" where
  "no_pattern_matches code \<longleftrightarrow>
     \<not> found no_flags function_name_rx code
     \<and> list_all (\<lambda>(p, label). \<not> found flag_I p code) FUNCTION_TYPE_PATTERNS
     \<and> list_all (\<lambda>(p, label). \<not> found flag_I p code) PROTOCOL_TYPE_PATTERNS
     \<and> list_all (\<lambda>(p, tag, kws). \<not> found flag_I p code) RISK_PATTERNS
     \<and> finditer no_flags external_call_rx code = []"

definition addends :: "CodeContext \<Rightarrow> real list" where
  "addends ctx =
     (if function_name ctx \<noteq> [] then [binary64 0.1] else [])
   @ (if function_type ctx \<noteq> [] then [binary64 0.2] else [])
   @ (if protocol_type ctx \<noteq> [] then [binary64 0.3] else [])
   @ (if risk_patterns ctx \<noteq> [] then
        [min (fmul (binary64 (real (length (risk_patterns ctx)))) (binary64 0.1)) (binary64 0.3)]
      else [])
   @ (if external_calls ctx \<noteq> [] then [binary64 0.1] else [])"

definition additive_score :: "CodeContext \<Rightarrow> real" where
  "additive_score ctx = foldl fadd 0 (addends ctx)"

definition full_code :: string where
  "full_code = ''function mint(){vault.call(o);twap;oracle}''"


subsection \<open>Quiz answers\<close>

text \<open>The index of an answer letter, A or a being 0; the letter of the leftmost hint of a
  text, a hint being \<^verbatim>\<open>answer\<close> or \<^verbatim>\<open>correct\<close>, a colon or a hyphen with any white space
  around it, and a letter from A to D, all in either case; the index the raw value
  stands for: itself less one as a 1-based index, itself as a 0-based index, else the
  nearest index.\<close>

definition letter_index :: "char \<Rightarrow> int" where
  "letter_index c =
     (if c \<in> set ''Aa'' then 0 else if c \<in> set ''Bb'' then 1 else if c \<in> set ''Cc'' then 2 else 3)"

definition leftmost_hint :: "string \<Rightarrow> char option" where
  "leftmost_hint text =
     (case re_search flag_I answer_hint_rx text of
        None \<Rightarrow> None
      | Some m \<Rightarrow> Some (hd (group m 1)))"

definition raw_index :: "int \<Rightarrow> int \<Rightarrow> int" where
  "raw_index raw n =
     (if 1 \<le> raw \<and> raw \<le> n then raw - 1
      else if 0 \<le> raw \<and> raw < n then raw
      else if raw < 0 then 0 else n - 1)"

subsection \<open>Quiz questions\<close>

text \<open>The invariant of a parsed question: it has options, and its correct index is the
  index of one of them. A quiz block with two options and the raw index 2.\<close>

definition well_formed :: "QuizQuestion \<Rightarrow> bool" where
  "well_formed q \<longleftrightarrow>
     options q \<noteq> [] \<and> 0 \<le> correct_index q \<and> correct_index q \<le> int (length (options q)) - 1"

definition two_option_quiz :: string where
  "two_option_quiz =
     ''<div class=\"quiz-question\" data-correct=\"2\"><p>Q?</p><div class=\"quiz-option\"> A </div><div class=\"quiz-option\">B</div></div>''"

text \<open>A quiz block whose \<^verbatim>\<open>data-correct\<close> attribute holds a number of that many digits;
  the block with 4301 digits.\<close>

definition digits_quiz :: "nat \<Rightarrow> string" where
  "digits_quiz n =
     ''<div class=\"quiz-question\" data-correct=\"'' @ replicate n CHR ''1'' @ ''\"></div>''"

definition long_index_quiz :: string where
  "long_index_quiz = digits_quiz 4301"
section \<open>Relevance score: proofs\<close>

lemma starts_with_iff: "starts_with h n \<longleftrightarrow> (\<exists>q. h = n @ q)"
  by (induction h n rule: starts_with.induct) auto

lemma str_in_iff: "str_in n h \<longleftrightarrow> (\<exists>p q. h = p @ n @ q)"
proof (induction h)
  case Nil
  then show ?case by auto
next
  case (Cons a h)
  show ?case
  proof
    assume "str_in n (a # h)"
    then consider "starts_with (a # h) n" | "str_in n h" by auto
    then show "\<exists>p q. a # h = p @ n @ q"
    proof cases
      case 1
      then obtain q where "a # h = n @ q" by (auto simp: starts_with_iff)
      then have "a # h = [] @ n @ q" by simp
      then show ?thesis by blast
    next
      case 2
      then obtain p q where "h = p @ n @ q" using Cons.IH by auto
      then have "a # h = (a # p) @ n @ q" by simp
      then show ?thesis by blast
    qed
  next
    assume "\<exists>p q. a # h = p @ n @ q"
    then obtain p q where pq: "a # h = p @ n @ q" by auto
    show "str_in n (a # h)"
    proof (cases p)
      case Nil
      then have "starts_with (a # h) n" using pq by (auto simp: starts_with_iff)
      then show ?thesis by simp
    next
      case (Cons b p')
      then have "h = p' @ n @ q" using pq by simp
      then have "str_in n h" using Cons.IH by blast
      then show ?thesis by simp
    qed
  qed
qed

lemma str_in_occurs: "str_in n h \<longleftrightarrow> occurs_in n h"
  by (simp add: str_in_iff occurs_in_def)

lemma risk_fold:
  "foldl (\<lambda>score risk. if P risk then score + 20 else score) s rs
     = s + 20 * int (length (filter P rs))"
  by (induction rs arbitrary: s) auto

lemma haystack_join:
  "join (str '' '') [low (or_empty (d_title d)), low (join (str '' '') (or_empty (d_tags d))),
      take 1200 (low (or_empty (d_content d)))] = lowered_haystack low str d"
  by (simp add: lowered_haystack_def)

lemma token_in_haystack:
  "list_ex (\<lambda>token. occurs_in token h) (map str accounting_tokens)
     \<longleftrightarrow> (\<exists>k\<in>set accounting_tokens. occurs_in (str k) h)"
  by (auto simp: list_ex_iff)

lemma balance_like_set:
  "low s \<in> set (map str [''balance'', ''balances'', ''_balances'']) \<longleftrightarrow> balance_like low str s"
  by (auto simp: balance_like_def)

lemma score_u_sum:
  "pitfall_relevance_score_u low up str d sel risks =
     (if sel \<noteq> [] \<and> occurs_in (low sel) (low (or_empty (d_title d))) then 80 else 0)
   + (if sel \<noteq> [] \<and> occurs_in (low sel) (low (join (str '' '') (or_empty (d_tags d))))
      then 50 else 0)
   + (if sel \<noteq> [] \<and> occurs_in (low sel) (lowered_haystack low str d) then 30 else 0)
   + (if sel \<noteq> [] \<and> balance_like low str sel
         \<and> (\<exists>k\<in>set accounting_tokens. occurs_in (str k) (lowered_haystack low str d))
      then 35 else 0)
   + 20 * int (length (filter (\<lambda>r. occurs_in (low r) (lowered_haystack low str d))
                         (take 3 risks)))
   + severity_bonus up str d"
  unfolding pitfall_relevance_score_u_def Let_def haystack_join str_in_occurs
    token_in_haystack balance_like_set risk_fold severity_bonus_def
  by auto

lemma score_of_dict:
  "pitfall_relevance_score f sel ctx =
     pitfall_relevance_score_u lower upper (\<lambda>s. s) (to_dict f) sel (risk_patterns ctx)"
  unfolding pitfall_relevance_score_def pitfall_relevance_score_u_def to_dict_def Let_def
  by simp

text \<open>The content of 600 dotted capitals: its lower case is 1200 code points long
  before the word begins.\<close>

lemma lower_dotted:
  "lower_text (replicate n 304 @ w) = concat (replicate n [105, 775]) @ lower_text w"
  by (induction n) (simp_all add: lower_text_def lower_point_def)

lemma length_pairs: "length (concat (replicate n [a, b])) = 2 * n"
  by (induction n) simp_all

lemma set_pairs: "set (concat (replicate n [a, b])) \<subseteq> {a, b}"
  by (induction n) auto

lemma occurs_set: "occurs_in s t \<Longrightarrow> set s \<subseteq> set t"
  by (auto simp: occurs_in_def)

lemma occurs_in_empty: "occurs_in s [] \<longleftrightarrow> s = []"
  by (simp add: occurs_in_def)

lemma balance_text: "text_of ''balance'' = [98, 97, 108, 97, 110, 99, 101]"
  by code_simp

lemma balance_lowered: "lower_text (text_of ''balance'') = text_of ''balance''"
  by code_simp

lemma dotted_content: "or_empty (d_content dotted_finding) = replicate 600 304 @ text_of ''balance''"
  by (simp add: dotted_finding_def or_empty_def)

lemma dotted_cut_then_lowered:
  "lower_text (take 1200 (or_empty (d_content dotted_finding)))
     = concat (replicate 600 [105, 775]) @ text_of ''balance''"
proof -
  have "take 1200 (replicate 600 304 @ text_of ''balance'') = replicate 600 304 @ text_of ''balance''"
    by (simp add: text_of_def)
  then show ?thesis
    by (simp add: dotted_content lower_dotted balance_lowered)
qed

lemma dotted_lowered_then_cut:
  "take 1200 (lower_text (or_empty (d_content dotted_finding))) = concat (replicate 600 [105, 775])"
  by (simp add: dotted_content lower_dotted length_pairs)

lemma dotted_haystack:
  "set (lowered_haystack lower_text text_of dotted_finding) \<subseteq> {32, 105, 775}"
proof -
  have sp: "text_of '' '' = [32]" by code_simp
  have e: "lower_text [] = []" by (simp add: lower_text_def)
  have "lowered_haystack lower_text text_of dotted_finding
          = [32, 32] @ concat (replicate 600 [105, 775])"
    unfolding lowered_haystack_def dotted_lowered_then_cut
    by (simp add: dotted_finding_def or_empty_def e sp)
  then show ?thesis using set_pairs [of 600 105 775] by auto
qed

lemma dotted_score:
  "pitfall_relevance_score_u lower_text upper_text text_of dotted_finding (text_of ''balance'') [] = 0"
proof -
  let ?h = "lowered_haystack lower_text text_of dotted_finding"
  have e: "lower_text [] = []" by (simp add: lower_text_def)
  have u: "upper_text [] = []" by (simp add: upper_text_def)
  have n: "text_of ''balance'' \<noteq> []" by (simp add: balance_text)
  have a: "\<not> occurs_in (text_of ''balance'') ?h"
    using occurs_set [of "text_of ''balance''" ?h] dotted_haystack by (auto simp: balance_text)
  have "\<forall>k\<in>set accounting_tokens. \<not> set (text_of k) \<subseteq> {32, 105, 775}"
    by code_simp
  then have k: "\<forall>k\<in>set accounting_tokens. \<not> occurs_in (text_of k) ?h"
    using occurs_set dotted_haystack by (metis subset_trans)
  have h: "text_of ''HIGH'' \<noteq> []" "text_of ''MEDIUM'' \<noteq> []" by (simp_all add: text_of_def)
  have s: "severity_bonus upper_text text_of dotted_finding = 0"
    using h by (simp add: severity_bonus_def dotted_finding_def or_empty_def u)
  show ?thesis
    unfolding score_u_sum
    using a k n s
    by (simp add: balance_lowered dotted_finding_def or_empty_def e occurs_in_empty)
qed

text \<open>
  Claim C5, amended. For every finding, selection name and context the relevance score
  is exactly the sum of: 80 if the lower-cased selection name occurs in the lower-cased
  title, 50 if in the lower-cased tags, 30 if in the haystack, 35 if the lower-cased
  selection name is a balance-like token and the haystack holds one of the accounting
  keywords, 20 for each of the first three risk tags of the context whose lower case
  occurs in the haystack, and 8 for HIGH or 4 for MEDIUM severity; the first four are 0
  when the selection name is empty. The haystack is the lower-cased title, the
  lower-cased tags and the first 1200 code points of the lower-cased content: the
  content is cut after it is lower-cased. This holds whatever lower-casing and
  upper-casing do to a text, and the score of the 8-bit model is an instance of it.
\<close>

theorem relevance_score_is_sum:
  "pitfall_relevance_score_u low up str d sel risks =
     (if sel \<noteq> [] \<and> occurs_in (low sel) (low (or_empty (d_title d))) then 80 else 0)
   + (if sel \<noteq> [] \<and> occurs_in (low sel) (low (join (str '' '') (or_empty (d_tags d))))
      then 50 else 0)
   + (if sel \<noteq> [] \<and> occurs_in (low sel) (lowered_haystack low str d) then 30 else 0)
   + (if sel \<noteq> [] \<and> balance_like low str sel
         \<and> (\<exists>k\<in>set accounting_tokens. occurs_in (str k) (lowered_haystack low str d))
      then 35 else 0)
   + 20 * int (length (filter (\<lambda>r. occurs_in (low r) (lowered_haystack low str d))
                         (take 3 risks)))
   + severity_bonus up str d
   \<and> pitfall_relevance_score f sel_name ctx =
       pitfall_relevance_score_u lower upper (\<lambda>s. s) (to_dict f) sel_name (risk_patterns ctx)"
  using score_u_sum [of low up str d sel risks] score_of_dict [of f sel_name ctx]
  by simp

theorem relevance_score_is_sum_witness:
  "pitfall_relevance_score example_finding ''balance'' example_ctx = 173
   \<and> (if ''balance'' \<noteq> []
           \<and> occurs_in (lower ''balance'') (lower (or_empty (d_title (to_dict example_finding))))
        then 80 else 0)
     + (if ''balance'' \<noteq> []
           \<and> occurs_in (lower ''balance'')
               (lower (join '' '' (or_empty (d_tags (to_dict example_finding)))))
        then 50 else 0)
     + (if ''balance'' \<noteq> []
           \<and> occurs_in (lower ''balance'')
               (lowered_haystack lower (\<lambda>s. s) (to_dict example_finding))
        then 30 else 0)
     + (if ''balance'' \<noteq> [] \<and> balance_like lower (\<lambda>s. s) ''balance''
           \<and> (\<exists>k\<in>set accounting_tokens.
                 occurs_in k (lowered_haystack lower (\<lambda>s. s) (to_dict example_finding)))
        then 35 else 0)
     + 20 * int (length (filter
                  (\<lambda>r. occurs_in (lower r)
                         (lowered_haystack lower (\<lambda>s. s) (to_dict example_finding)))
                  (take 3 (risk_patterns example_ctx))))
     + severity_bonus upper (\<lambda>s. s) (to_dict example_finding) = (173::int)"
proof -
  have e: "pitfall_relevance_score example_finding ''balance'' example_ctx = 173"
    by code_simp
  show ?thesis
    using relevance_score_is_sum [where low = lower and up = upper and str = "\<lambda>s. s"
        and d = "to_dict example_finding" and sel = "''balance''"
        and risks = "risk_patterns example_ctx" and f = example_finding
        and sel_name = "''balance''" and ctx = example_ctx] e
    by simp
qed

text \<open>
  Claim C5 as it was worded takes the first 1200 characters of the content. On a content
  of 600 capital I with a dot followed by \<^verbatim>\<open>balance\<close> the selection name \<^verbatim>\<open>balance\<close>
  occurs, case-insensitively, in the first 1200 characters of the content, yet the score
  is 0 and not 30: the lower-cased content is cut, and there the word begins at code
  point 1200.
\<close>

theorem lower_casing_precedes_the_cut:
  "pitfall_relevance_score_u lower_text upper_text text_of dotted_finding (text_of ''balance'') [] = 0
   \<and> occurs_in (lower_text (text_of ''balance''))
        (lower_text (take 1200 (or_empty (d_content dotted_finding))))
   \<and> \<not> occurs_in (lower_text (text_of ''balance''))
        (take 1200 (lower_text (or_empty (d_content dotted_finding))))"
proof -
  have b: "occurs_in (lower_text (text_of ''balance''))
             (lower_text (take 1200 (or_empty (d_content dotted_finding))))"
    unfolding dotted_cut_then_lowered balance_lowered occurs_in_def
    by (rule exI [of _ "concat (replicate 600 [105, 775])"], rule exI [of _ "[]"]) simp
  have c: "\<not> occurs_in (lower_text (text_of ''balance''))
             (take 1200 (lower_text (or_empty (d_content dotted_finding))))"
    unfolding dotted_lowered_then_cut balance_lowered
    using occurs_set [of "text_of ''balance''" "concat (replicate 600 [105, 775])"]
      set_pairs [of 600 105 775]
    by (auto simp: balance_text)
  show ?thesis using dotted_score b c by simp
qed

section \<open>Ranking: proofs\<close>

lemma filter_sort_reverse:
  "filter (\<lambda>x. key x = k) (sort_reverse key xs) = filter (\<lambda>x. key x = k) xs"
  by (simp add: sort_reverse_def rev_filter [symmetric] sort_key_stable)

lemma mset_sort_reverse: "mset (sort_reverse key xs) = mset xs"
  by (simp add: sort_reverse_def)

lemma descending_sort_reverse: "sorted_wrt (\<ge>) (map key (sort_reverse key xs))"
proof -
  have "sorted (map key (sort_key key (rev xs)))" by simp
  then have "sorted_wrt (\<le>) (rev (map key (sort_reverse key xs)))"
    by (simp add: sort_reverse_def rev_map)
  then show ?thesis by (simp add: sorted_wrt_rev)
qed

lemma sort_reverse_unique:
  assumes m: "mset ys = mset xs"
    and d: "sorted_wrt (\<ge>) (map key ys)"
    and st: "\<forall>k. filter (\<lambda>x. key x = k) ys = filter (\<lambda>x. key x = k) xs"
  shows "ys = sort_reverse key xs"
proof -
  have 1: "mset (rev ys) = mset (rev xs)" using m by simp
  have 2: "sorted (map key (rev ys))"
    using d unfolding rev_map [symmetric] sorted_wrt_rev by simp
  have 3: "\<And>k. k \<in> set (rev ys) \<Longrightarrow>
      filter (\<lambda>x. key k = key x) (rev ys) = filter (\<lambda>x. key k = key x) (rev xs)"
  proof -
    fix k
    have "filter (\<lambda>x. key x = key k) ys = filter (\<lambda>x. key x = key k) xs" using st by blast
    then have "filter (\<lambda>x. key k = key x) ys = filter (\<lambda>x. key k = key x) xs"
      by (simp add: eq_commute)
    then show "filter (\<lambda>x. key k = key x) (rev ys) = filter (\<lambda>x. key k = key x) (rev xs)"
      by (simp add: rev_filter [symmetric])
  qed
  have "sort_key key (rev xs) = rev ys"
    by (rule properties_for_sort_key [OF 1 3 2])
  then show ?thesis by (simp add: sort_reverse_def)
qed

text \<open>
  Claim C6. Ranking is deterministic and stable. For the scored list of the deduplicated
  findings in first-seen order, the sort by descending score is a rearrangement of that
  list in descending order of the score in which the findings of any one score stand in
  their first-seen order; and it is the only such list, so the same findings, selection
  name and context always give the same ranking.
\<close>

theorem ranking_stable_deterministic:
  "mset (sort_reverse fst (score_all sel ctx fs)) = mset (score_all sel ctx fs)
   \<and> sorted_wrt (\<ge>) (map fst (sort_reverse fst (score_all sel ctx fs)))
   \<and> (\<forall>k. filter (\<lambda>x. fst x = k) (sort_reverse fst (score_all sel ctx fs))
            = filter (\<lambda>x. fst x = k) (score_all sel ctx fs))
   \<and> (\<forall>ys. mset ys = mset (score_all sel ctx fs)
            \<and> sorted_wrt (\<ge>) (map fst ys)
            \<and> (\<forall>k. filter (\<lambda>x. fst x = k) ys = filter (\<lambda>x. fst x = k) (score_all sel ctx fs))
          \<longrightarrow> ys = sort_reverse fst (score_all sel ctx fs))"
  using mset_sort_reverse descending_sort_reverse filter_sort_reverse sort_reverse_unique
  by blast

theorem ranking_stable_deterministic_witness:
  "map snd (sort_reverse fst (score_all ''balance'' example_ctx [tie_first, best_match, tie_second]))
     = [best_match, tie_first, tie_second]
   \<and> filter (\<lambda>x. fst x = 8)
        (sort_reverse fst (score_all ''balance'' example_ctx [tie_first, best_match, tie_second]))
     = [(8, tie_first), (8, tie_second)]
   \<and> rank_findings 5 ''balance'' example_ctx [tie_first, best_match, tie_second]
     = [best_match, tie_first, tie_second]"
proof -
  have e: "score_all ''balance'' example_ctx [tie_first, best_match, tie_second]
             = [(8, tie_first), (118, best_match), (8, tie_second)]"
    by code_simp
  have s: "sort_reverse fst [(8::int, tie_first), (118, best_match), (8, tie_second)]
             = [(118, best_match), (8, tie_first), (8, tie_second)]"
    by (simp add: sort_reverse_def)
  have f: "filter (\<lambda>x. fst x = 8)
             (sort_reverse fst (score_all ''balance'' example_ctx [tie_first, best_match, tie_second]))
           = filter (\<lambda>x. fst x = 8)
               (score_all ''balance'' example_ctx [tie_first, best_match, tie_second])"
    using ranking_stable_deterministic [of "''balance''" example_ctx "[tie_first, best_match, tie_second]"]
    by blast
  show ?thesis
    using f by (simp add: e s rank_findings_def)
qed

section \<open>Cross-reference queries: proofs\<close>

lemma for_each_total:
  "for_each (\<lambda>s x. Inr (g s x)) s xs = Inr (foldl g s xs)"
  by (induction xs arbitrary: s) auto

lemma scout_keep_old: "title f \<in> seen_titles acc \<Longrightarrow> scout_keep acc f = acc"
  by (simp add: scout_keep_def)

lemma scout_keep_new:
  "title f \<notin> seen_titles acc \<Longrightarrow>
     scout_keep acc f = acc\<lparr>seen_titles := insert (title f) (seen_titles acc),
                            all_findings := all_findings acc @ [f]\<rparr>"
  by (simp add: scout_keep_def)

lemma foldl_scout_keep:
  "foldl scout_keep acc fs =
     acc\<lparr>seen_titles := seen_titles acc \<union> title ` set fs,
         all_findings := all_findings acc @ first_seen title (seen_titles acc) fs\<rparr>"
proof (induction fs arbitrary: acc)
  case Nil
  then show ?case by simp
next
  case (Cons f fs)
  show ?case
  proof (cases "title f \<in> seen_titles acc")
    case True
    then show ?thesis by (simp add: Cons.IH scout_keep_old insert_absorb)
  next
    case False
    then show ?thesis by (simp add: Cons.IH scout_keep_new)
  qed
qed

lemma pitfall_keep_old:
  "finding_key f \<in> seen_keys acc \<Longrightarrow> pitfall_keep sel ctx acc f = acc"
  by (simp add: pitfall_keep_def)

lemma pitfall_keep_new:
  "finding_key f \<notin> seen_keys acc \<Longrightarrow>
     pitfall_keep sel ctx acc f =
       acc\<lparr>seen_keys := insert (finding_key f) (seen_keys acc),
           scored := scored acc @ [(pitfall_relevance_score f sel ctx, f)]\<rparr>"
  by (simp add: pitfall_keep_def)

lemma foldl_pitfall_keep:
  "foldl (pitfall_keep sel ctx) acc fs =
     acc\<lparr>seen_keys := seen_keys acc \<union> finding_key ` set fs,
         scored := scored acc @ score_all sel ctx (first_seen finding_key (seen_keys acc) fs)\<rparr>"
proof (induction fs arbitrary: acc)
  case Nil
  then show ?case by (simp add: score_all_def)
next
  case (Cons f fs)
  show ?case
  proof (cases "finding_key f \<in> seen_keys acc")
    case True
    then show ?thesis by (simp add: Cons.IH pitfall_keep_old insert_absorb)
  next
    case False
    then show ?thesis by (simp add: Cons.IH pitfall_keep_new score_all_def)
  qed
qed

lemma first_seen_append:
  "first_seen key seen (xs @ ys) = first_seen key seen xs @ first_seen key (seen \<union> key ` set xs) ys"
  by (induction xs arbitrary: seen) (auto simp: insert_absorb)


lemma answered_Inl: "search q quality n = Inl e \<Longrightarrow> answered search quality n q = []"
  by (simp add: answered_def)

lemma answered_Inr: "search q quality n = Inr fs \<Longrightarrow> answered search quality n q = fs"
  by (simp add: answered_def)

lemma scout_try_Inl:
  "search q 3 n = Inl e \<Longrightarrow>
     scout_try search n acc q = Inr (acc\<lparr>scout_warnings := scout_warnings acc @ [(q, e)]\<rparr>)"
  by (simp add: scout_try_def)

lemma scout_try_Inr:
  "search q 3 n = Inr fs \<Longrightarrow> scout_try search n acc q = Inr (foldl scout_keep acc fs)"
  by (simp add: scout_try_def)

lemma pitfall_try_Inl:
  "search q 2 4 = Inl e \<Longrightarrow>
     pitfall_try search sel ctx acc q =
       Inr (acc\<lparr>pitfall_warnings := pitfall_warnings acc @ [(q, e)]\<rparr>)"
  by (simp add: pitfall_try_def)

lemma pitfall_try_Inr:
  "search q 2 4 = Inr fs \<Longrightarrow>
     pitfall_try search sel ctx acc q = Inr (foldl (pitfall_keep sel ctx) acc fs)"
  by (simp add: pitfall_try_def)

lemma scout_loop:
  "for_each (scout_try search n) acc qs = Inr acc' \<Longrightarrow>
     all_findings acc' =
       all_findings acc @ first_seen title (seen_titles acc) (concat (map (answered search 3 n) qs))
     \<and> seen_titles acc' = seen_titles acc \<union> title ` set (concat (map (answered search 3 n) qs))"
proof (induction qs arbitrary: acc)
  case Nil
  then show ?case by simp
next
  case (Cons q qs)
  show ?case
  proof (cases "search q 3 n")
    case (Inl e)
    then have "for_each (scout_try search n) (acc\<lparr>scout_warnings := scout_warnings acc @ [(q, e)]\<rparr>) qs
                 = Inr acc'"
      using Cons.prems by (simp add: scout_try_Inl scout_try_Inr)
    from Cons.IH [OF this] show ?thesis
      using Inl by (simp add: answered_Inl)
  next
    case (Inr fs)
    then have "for_each (scout_try search n) (foldl scout_keep acc fs) qs = Inr acc'"
      using Cons.prems by (simp add: scout_try_Inl scout_try_Inr)
    from Cons.IH [OF this] show ?thesis
      using Inr by (simp add: answered_Inr foldl_scout_keep first_seen_append Un_assoc image_Un)
  qed
qed

lemma scout_loop_returns: "\<exists>acc'. for_each (scout_try search n) acc qs = Inr acc'"
proof (induction qs arbitrary: acc)
  case Nil
  then show ?case by simp
next
  case (Cons q qs)
  then show ?case by (cases "search q 3 n") (simp_all add: scout_try_Inl scout_try_Inr)
qed

lemma pitfall_loop:
  "for_each (pitfall_try search sel ctx) acc qs = Inr acc' \<Longrightarrow>
     scored acc' =
       scored acc @ score_all sel ctx
         (first_seen finding_key (seen_keys acc) (concat (map (answered search 2 4) qs)))
     \<and> seen_keys acc' = seen_keys acc \<union> finding_key ` set (concat (map (answered search 2 4) qs))"
proof (induction qs arbitrary: acc)
  case Nil
  then show ?case by (simp add: score_all_def)
next
  case (Cons q qs)
  show ?case
  proof (cases "search q 2 4")
    case (Inl e)
    then have "for_each (pitfall_try search sel ctx)
                 (acc\<lparr>pitfall_warnings := pitfall_warnings acc @ [(q, e)]\<rparr>) qs = Inr acc'"
      using Cons.prems by (simp add: pitfall_try_Inl pitfall_try_Inr)
    from Cons.IH [OF this] show ?thesis
      using Inl by (simp add: answered_Inl)
  next
    case (Inr fs)
    then have "for_each (pitfall_try search sel ctx) (foldl (pitfall_keep sel ctx) acc fs) qs = Inr acc'"
      using Cons.prems by (simp add: pitfall_try_Inl pitfall_try_Inr)
    from Cons.IH [OF this] show ?thesis
      using Inr by (simp add: answered_Inr foldl_pitfall_keep first_seen_append Un_assoc image_Un score_all_def)
  qed
qed

lemma pitfall_loop_returns: "\<exists>acc'. for_each (pitfall_try search sel ctx) acc qs = Inr acc'"
proof (induction qs arbitrary: acc)
  case Nil
  then show ?case by simp
next
  case (Cons q qs)
  then show ?case by (cases "search q 2 4") (simp_all add: pitfall_try_Inl pitfall_try_Inr)
qed

lemma answered_failures_as_empty:
  "answered (failures_as_empty search) quality n = answered search quality n"
  by (rule ext) (simp add: answered_def failures_as_empty_def)

lemma scout_findings_eq:
  "scout_findings search page_size qs =
     Some (first_seen title {}
            (concat (map (answered search 3 (per_query_size page_size qs)) (take 8 qs))))"
proof -
  obtain acc' where a: "scout_fetch search page_size qs = Inr acc'"
    unfolding scout_fetch_def using scout_loop_returns by blast
  then show ?thesis
    using scout_loop [of search "per_query_size page_size qs" _ "take 8 qs" acc']
    by (simp add: scout_findings_def scout_fetch_def)
qed

lemma pitfall_scored_eq:
  "pitfall_scored search sel ctx qs =
     Some (score_all sel ctx
            (first_seen finding_key {} (concat (map (answered search 2 4) (take 6 qs)))))"
proof -
  obtain acc' where a: "pitfall_fetch search sel ctx qs = Inr acc'"
    unfolding pitfall_fetch_def using pitfall_loop_returns by blast
  then show ?thesis
    using pitfall_loop [of search sel ctx _ "take 6 qs" acc']
    by (simp add: pitfall_scored_def pitfall_fetch_def)
qed

text \<open>
  Claim C9. When several findings-corpus queries are issued in one request (scout report,
  pitfall), a failing search call is caught and counts as no findings from that query:
  the loop never ends in the query's exception, the other queries are still executed,
  and the findings collected are the first-seen (deduplicated by title, resp. by slug or
  title) findings of the queries that answered, exactly as if the failing queries had
  answered with an empty list.
\<close>

theorem failed_query_counts_as_no_findings:
  "scout_findings search page_size qs =
     Some (first_seen title {}
            (concat (map (answered search 3 (per_query_size page_size qs)) (take 8 qs))))
   \<and> scout_findings (failures_as_empty search) page_size qs = scout_findings search page_size qs
   \<and> pitfall_scored search sel ctx qs =
       Some (score_all sel ctx
              (first_seen finding_key {} (concat (map (answered search 2 4) (take 6 qs)))))
   \<and> pitfall_scored (failures_as_empty search) sel ctx qs = pitfall_scored search sel ctx qs
   \<and> (\<exists>fs. pitfall_findings search sel ctx qs = Inr fs)"
proof -
  obtain acc' where "pitfall_fetch search sel ctx qs = Inr acc'"
    unfolding pitfall_fetch_def using pitfall_loop_returns by blast
  then have "\<exists>fs. pitfall_findings search sel ctx qs = Inr fs"
    by (simp add: pitfall_findings_def)
  then show ?thesis
    by (simp add: scout_findings_eq pitfall_scored_eq answered_failures_as_empty)
qed


theorem failed_query_counts_as_no_findings_witness:
  "scout_findings flaky_search 20 [''Reentrancy'', ''Oracle'', ''deposit vulnerability'']
     = Some [tie_first, best_match, tie_second]
   \<and> scout_findings (failures_as_empty flaky_search) 20
         [''Reentrancy'', ''Oracle'', ''deposit vulnerability'']
     = Some [tie_first, best_match, tie_second]
   \<and> pitfall_scored flaky_search ''balance'' example_ctx
         [''Reentrancy'', ''Oracle'', ''deposit vulnerability'']
     = Some [(8, tie_first), (118, best_match), (8, tie_second)]
   \<and> flaky_search ''Oracle'' 3 6 = Inl SoloditRateLimitError"
proof -
  have e1: "first_seen title {}
              (concat (map (answered flaky_search 3
                 (per_query_size 20 [''Reentrancy'', ''Oracle'', ''deposit vulnerability'']))
                 (take 8 [''Reentrancy'', ''Oracle'', ''deposit vulnerability''])))
            = [tie_first, best_match, tie_second]"
    by code_simp
  have e2: "score_all ''balance'' example_ctx
              (first_seen finding_key {}
                (concat (map (answered flaky_search 2 4)
                   (take 6 [''Reentrancy'', ''Oracle'', ''deposit vulnerability'']))))
            = [(8, tie_first), (118, best_match), (8, tie_second)]"
    by code_simp
  have e3: "flaky_search ''Oracle'' 3 6 = Inl SoloditRateLimitError"
    by code_simp
  show ?thesis
    using failed_query_counts_as_no_findings
            [of flaky_search 20 "[''Reentrancy'', ''Oracle'', ''deposit vulnerability'']"
                "''balance''" example_ctx]
          e1 e2 e3
    by simp
qed

section \<open>ERC detection: proofs\<close>

lemma detected_filter:
  "foldl (\<lambda>detected (erc_name, patterns). if P patterns then detected @ [erc_name] else detected)
         acc tbl = acc @ map fst (filter (\<lambda>(erc_name, patterns). P patterns) tbl)"
  by (induction tbl arbitrary: acc) auto

lemma ercs_detected_filter:
  "ercs_detected code =
     map fst (filter (\<lambda>(erc_name, patterns). 2 \<le> count_matches code patterns) ERC_PATTERNS)"
  unfolding ercs_detected_def by (subst detected_filter) simp

lemma erc_names_distinct: "distinct (map fst ERC_PATTERNS)"
  by (simp add: ERC_PATTERNS_def)

lemma detected_iff:
  assumes "(std, pats) \<in> set ERC_PATTERNS"
  shows "std \<in> set (ercs_detected code) \<longleftrightarrow> 2 \<le> count_matches code pats"
proof
  assume "std \<in> set (ercs_detected code)"
  then obtain pats' where p: "(std, pats') \<in> set ERC_PATTERNS" "2 \<le> count_matches code pats'"
    by (auto simp: ercs_detected_filter)
  have "pats' = pats"
    using eq_key_imp_eq_value [OF erc_names_distinct p(1) assms] .
  then show "2 \<le> count_matches code pats" using p(2) by simp
next
  assume "2 \<le> count_matches code pats"
  then show "std \<in> set (ercs_detected code)"
    using assms by (force simp: ercs_detected_filter)
qed

lemma count_matches_mono:
  "\<forall>p\<in>set pats. found no_flags p code \<longrightarrow> found no_flags p code' \<Longrightarrow>
     count_matches code pats \<le> count_matches code' pats"
  unfolding count_matches_def
  by (induction pats) auto

text \<open>
  Claim C4. For every code and every standard of the ERC table, the parser lists the
  standard in \<^verbatim>\<open>ercs_detected\<close> if and only if at least two of its sub-patterns match
  the code. So detection is monotonic (a code that matches every sub-pattern another
  code matches has every standard detected that the other has), a standard with exactly
  one matching sub-pattern is not detected, and several standards can be detected at
  once.
\<close>

theorem erc_detection_threshold:
  "(\<forall>std pats. (std, pats) \<in> set ERC_PATTERNS \<longrightarrow>
       (std \<in> set (ercs_detected code) \<longleftrightarrow> 2 \<le> count_matches code pats))
   \<and> (\<forall>std pats code'. (std, pats) \<in> set ERC_PATTERNS
         \<and> (\<forall>p\<in>set pats. found no_flags p code \<longrightarrow> found no_flags p code')
         \<and> std \<in> set (ercs_detected code) \<longrightarrow> std \<in> set (ercs_detected code'))
   \<and> (\<forall>std pats. (std, pats) \<in> set ERC_PATTERNS \<and> count_matches code pats = 1
         \<longrightarrow> std \<notin> set (ercs_detected code))
   \<and> ercs_detected ''transferFrom(a); balanceOf(c); ownerOf(b); tokenURI(b)'' = [''ERC20'', ''ERC721'']"
proof -
  have mono: "\<And>std pats code'. (std, pats) \<in> set ERC_PATTERNS \<Longrightarrow>
      \<forall>p\<in>set pats. found no_flags p code \<longrightarrow> found no_flags p code' \<Longrightarrow>
      std \<in> set (ercs_detected code) \<Longrightarrow> std \<in> set (ercs_detected code')"
  proof -
    fix std pats code'
    assume m: "(std, pats) \<in> set ERC_PATTERNS"
      and i: "\<forall>p\<in>set pats. found no_flags p code \<longrightarrow> found no_flags p code'"
      and d: "std \<in> set (ercs_detected code)"
    have "2 \<le> count_matches code pats" using d detected_iff [OF m] by simp
    then have "2 \<le> count_matches code' pats" using count_matches_mono [OF i] by simp
    then show "std \<in> set (ercs_detected code')" using detected_iff [OF m] by simp
  qed
  have both: "ercs_detected ''transferFrom(a); balanceOf(c); ownerOf(b); tokenURI(b)'' = [''ERC20'', ''ERC721'']"
    by code_simp
  have a: "\<forall>std pats. (std, pats) \<in> set ERC_PATTERNS \<longrightarrow>
       (std \<in> set (ercs_detected code) \<longleftrightarrow> 2 \<le> count_matches code pats)"
    using detected_iff by blast
  have b: "\<forall>std pats code'. (std, pats) \<in> set ERC_PATTERNS
         \<and> (\<forall>p\<in>set pats. found no_flags p code \<longrightarrow> found no_flags p code')
         \<and> std \<in> set (ercs_detected code) \<longrightarrow> std \<in> set (ercs_detected code')"
    using mono by blast
  have c: "\<forall>std pats. (std, pats) \<in> set ERC_PATTERNS \<and> count_matches code pats = 1
         \<longrightarrow> std \<notin> set (ercs_detected code)"
  proof (intro allI impI)
    fix std pats
    assume h: "(std, pats) \<in> set ERC_PATTERNS \<and> count_matches code pats = 1"
    then have "\<not> 2 \<le> count_matches code pats" by simp
    then show "std \<notin> set (ercs_detected code)" using detected_iff h by blast
  qed
  show ?thesis
    by (intro conjI) (rule a, rule b, rule c, rule both)
qed

theorem erc_detection_threshold_witness:
  "(''ERC721'' \<in> set (ercs_detected ''ownerOf(x); tokenURI(x)''))
   \<and> count_matches ''ownerOf(x); tokenURI(x)''
        [lit ''ownerOf'', lit ''safeTransferFrom'', lit ''tokenURI'', lit ''ERC721''] = 2
   \<and> ''ERC20'' \<notin> set (ercs_detected ''ownerOf(x); tokenURI(x)'')"
proof -
  have m: "(''ERC721'', [lit ''ownerOf'', lit ''safeTransferFrom'', lit ''tokenURI'', lit ''ERC721''])
             \<in> set ERC_PATTERNS"
    by (simp add: ERC_PATTERNS_def)
  have c: "count_matches ''ownerOf(x); tokenURI(x)''
             [lit ''ownerOf'', lit ''safeTransferFrom'', lit ''tokenURI'', lit ''ERC721''] = 2"
    by code_simp
  have n: "''ERC20'' \<notin> set (ercs_detected ''ownerOf(x); tokenURI(x)'')"
    by code_simp
  show ?thesis
    using erc_detection_threshold [of "''ownerOf(x); tokenURI(x)''"] m c n by simp
qed

section \<open>Code analyzer: proofs\<close>

lemma first_label_none:
  "list_all (\<lambda>(p, label). \<not> found flag_I p code) tbl \<Longrightarrow> first_label tbl code = []"
  by (induction tbl code rule: first_label.induct) auto

lemma risk_fold_none:
  "list_all (\<lambda>(p, tag, kws). \<not> found flag_I p code) tbl \<Longrightarrow>
     foldl (\<lambda>tags (pattern, tag, kws). if found flag_I pattern code then tags @ [tag] else tags)
       acc tbl = acc"
  by (induction tbl arbitrary: acc) auto

lemma risk_tags_none:
  "list_all (\<lambda>(p, tag, kws). \<not> found flag_I p code) RISK_PATTERNS \<Longrightarrow> risk_tags code = []"
  unfolding risk_tags_def by (rule risk_fold_none)

lemma name_none:
  "\<not> found no_flags function_name_rx code \<Longrightarrow>
     (case re_search no_flags function_name_rx code of None \<Rightarrow> [] | Some m \<Rightarrow> group m 1) = []"
  by (simp add: found_def)

lemma calls_none:
  "finditer no_flags external_call_rx code = [] \<Longrightarrow> find_external_calls code = []"
  by (simp add: find_external_calls_def)

text \<open>Rounding keeps the sign, so the sums of the analyzer are not negative.\<close>

lemma round_half_even_nonneg: "0 \<le> y \<Longrightarrow> 0 \<le> round_half_even y"
  unfolding round_half_even_def Let_def by auto

lemma pow2_pos: "0 < pow2 k"
  unfolding pow2_def by simp

lemma binary64_nonneg: "0 \<le> x \<Longrightarrow> 0 \<le> binary64 x"
proof (cases "x = 0")
  case True
  then show ?thesis by (simp add: binary64_def)
next
  case False
  assume "0 \<le> x"
  then have pos: "0 < x" using False by simp
  define ulp where "ulp = pow2 (max (binade 1024 \<bar>x\<bar>) (- 1022) - 52)"
  have u: "0 < ulp" unfolding ulp_def by (rule pow2_pos)
  have "0 \<le> \<bar>x\<bar> / ulp" using u by simp
  then have "0 \<le> round_half_even (\<bar>x\<bar> / ulp)" by (rule round_half_even_nonneg)
  then have "0 \<le> of_int (round_half_even (\<bar>x\<bar> / ulp)) * ulp" using u by simp
  moreover have "binary64 x = of_int (round_half_even (\<bar>x\<bar> / ulp)) * ulp"
    using pos False unfolding binary64_def Let_def ulp_def by simp
  ultimately show ?thesis by simp
qed

lemma binary64_zero: "binary64 0 = 0"
  by (simp add: binary64_def)

lemma binary64_one: "binary64 1 = 1"
  by code_simp

lemma fadd_nonneg: "0 \<le> a \<Longrightarrow> 0 \<le> b \<Longrightarrow> 0 \<le> fadd a b"
  unfolding fadd_def by (rule binary64_nonneg) simp

lemma fmul_nonneg: "0 \<le> a \<Longrightarrow> 0 \<le> b \<Longrightarrow> 0 \<le> fmul a b"
  unfolding fmul_def by (rule binary64_nonneg) simp

lemma foldl_fadd_nonneg: "0 \<le> s \<Longrightarrow> (\<forall>a\<in>set xs. 0 \<le> a) \<Longrightarrow> 0 \<le> foldl fadd s xs"
  by (induction xs arbitrary: s) (auto simp: fadd_nonneg)

lemma addends_nonneg: "\<forall>a\<in>set (addends ctx). 0 \<le> a"
  unfolding addends_def by (auto simp: binary64_nonneg fmul_nonneg)

lemma additive_score_nonneg: "0 \<le> additive_score ctx"
  unfolding additive_score_def by (rule foldl_fadd_nonneg) (simp_all add: addends_nonneg)

lemma confidence_eq: "confidence (analyze code) = min 1 (additive_score (analyze code))"
  unfolding analyze_def additive_score_def addends_def Let_def
  by (simp add: min.commute binary64_zero binary64_one)

lemma no_match_zero: "no_pattern_matches code \<Longrightarrow> confidence (analyze code) = 0"
  unfolding no_pattern_matches_def analyze_def Let_def
  by (simp add: first_label_none risk_tags_none name_none calls_none binary64_zero binary64_one)

lemma empty_zero: "confidence (analyze []) = 0"
  by code_simp

text \<open>The sums are those of the floats: a name and a type give 0.30000000000000004,
  and on a code with all five addends the sum is 1.0000000000000002, which only the
  final \<^verbatim>\<open>min(c, 1.0)\<close> brings back to 1.\<close>

lemma name_and_type: "confidence (analyze ''function mint'') = 5404319552844596 / 2 ^ 54"
  by code_simp

lemma full_code_context:
  "analyze full_code =
     \<lparr>function_name = ''mint'', function_type = ''mint'', protocol_type = ''Vault'',
      risk_patterns = [''Reentrancy'', ''Oracle'', ''Oracle''],
      external_calls = [''vault.call''], confidence = 1\<rparr>"
  by code_simp

lemma full_code_score: "additive_score (analyze full_code) = 1 + 1 / 2 ^ 52"
  unfolding full_code_context by code_simp

text \<open>
  Claim C2. For every code, the confidence of \<^verbatim>\<open>analyze(code)\<close> lies in [0, 1] and is the
  minimum of 1.0 and the additive score, the float sum, in the order of the code, of 0.1
  for a function name, 0.2 for a function type, 0.3 for a protocol type, the smaller of
  0.1 times the number of risk entries and 0.3 when a risk pattern matched, and 0.1 for
  an external call. When no pattern matches, as on the empty input, it is 0.0. The sums
  are float sums: a name and a type give 0.30000000000000004, and with all five addends
  the score is 1.0000000000000002 and the confidence 1.0.
\<close>

theorem confidence_is_clamped_sum:
  "confidence (analyze code) = min 1 (additive_score (analyze code))
   \<and> 0 \<le> confidence (analyze code) \<and> confidence (analyze code) \<le> 1
   \<and> (no_pattern_matches code \<longrightarrow> confidence (analyze code) = 0)
   \<and> confidence (analyze []) = 0
   \<and> confidence (analyze ''function mint'') = 5404319552844596 / 2 ^ 54
   \<and> additive_score (analyze full_code) = 1 + 1 / 2 ^ 52
   \<and> confidence (analyze full_code) = 1"
proof -
  have a: "confidence (analyze code) = min 1 (additive_score (analyze code))"
    by (rule confidence_eq)
  have b: "0 \<le> confidence (analyze code)"
    unfolding a using additive_score_nonneg [of "analyze code"] by simp
  have c: "confidence (analyze code) \<le> 1"
    unfolding a by simp
  have d: "no_pattern_matches code \<longrightarrow> confidence (analyze code) = 0"
    using no_match_zero [of code] by simp
  have e: "confidence (analyze full_code) = 1"
    unfolding full_code_context by simp
  show ?thesis
    by (intro conjI) (rule a, rule b, rule c, rule d, rule empty_zero, rule name_and_type,
      rule full_code_score, rule e)
qed

theorem confidence_is_clamped_sum_witness:
  "confidence (analyze ''a.call(b); t.transfer(c)'') = 1 / 2
   \<and> additive_score (analyze ''a.call(b); t.transfer(c)'') = 1 / 2
   \<and> no_pattern_matches ''x y''
   \<and> confidence (analyze ''x y'') = 0"
proof -
  have e: "analyze ''a.call(b); t.transfer(c)'' =
      \<lparr>function_name = [], function_type = ''transfer'', protocol_type = [],
       risk_patterns = [''Reentrancy'', ''Reentrancy''],
       external_calls = [''a.call'', ''t.transfer''], confidence = 1 / 2\<rparr>"
    by code_simp
  have n: "no_pattern_matches ''x y''"
    by code_simp
  have s: "additive_score (analyze ''a.call(b); t.transfer(c)'') = 1 / 2"
    unfolding e by code_simp
  show ?thesis
    using confidence_is_clamped_sum [of "''a.call(b); t.transfer(c)''"]
      confidence_is_clamped_sum [of "''x y''"] n s e
    by simp
qed

text \<open>The risk loop appends the tag of every matching pattern: the list holds a tag as
  often as patterns of that tag match.\<close>

lemma risk_fold_all:
  "foldl (\<lambda>tags (pattern, tag, kws). if found flag_I pattern code then tags @ [tag] else tags)
     acc tbl
   = acc @ map (\<lambda>(pattern, tag, kws). tag)
             (filter (\<lambda>(pattern, tag, kws). found flag_I pattern code) tbl)"
  by (induction tbl arbitrary: acc) auto

lemma risk_tags_all:
  "risk_tags code =
     map (\<lambda>(pattern, tag, kws). tag)
       (filter (\<lambda>(pattern, tag, kws). found flag_I pattern code) RISK_PATTERNS)"
  unfolding risk_tags_def by (subst risk_fold_all) simp

text \<open>
  Claim C3 says that \<^verbatim>\<open>analyze(code).risk_patterns\<close> holds every tag at most once. On a
  code with a low-level call and a token transfer both Reentrancy patterns match, and
  the list holds the tag twice.
\<close>

theorem risk_patterns_hold_a_tag_twice:
  "risk_patterns (analyze ''a.call(b); t.transfer(c)'') = [''Reentrancy'', ''Reentrancy'']"
  by code_simp

section \<open>Quiz answers: proofs\<close>

text \<open>Every match of the hint pattern ends with its group, one letter from A to D in
  either case.\<close>

lemma ms_Seq_set: "set (ms fl (Seq a b) st) = (\<Union>st' \<in> set (ms fl a st). set (ms fl b st'))"
  by simp

lemma ms_Group_Atom:
  "st' \<in> set (ms fl (Group n (Atom cls)) (p, s, g)) \<Longrightarrow>
     \<exists>c cs. s = c # cs \<and> cmatch fl cls c \<and> st' = (Some c, cs, (n, [c]) # g)"
  by (cases s) (auto split: if_splits)

lemma scan_groups:
  "scan fl r p s i = Some m \<Longrightarrow>
     \<exists>p0 s0 p' s'. (p', s', m_groups m) \<in> set (ms fl r (p0, s0, []))"
proof (induction fl r p s i rule: scan.induct)
  case (1 fl r p i)
  show ?case
  proof (cases "ms fl r (p, [], [])")
    case Nil
    then show ?thesis using 1 by simp
  next
    case (Cons st rest)
    obtain p' s' g where st: "st = (p', s', g)" by (cases st) auto
    have "m_groups m = g" using 1 Cons st by auto
    moreover have "(p', s', g) \<in> set (ms fl r (p, [], []))" using Cons st by simp
    ultimately show ?thesis by blast
  qed
next
  case (2 fl r p c cs i)
  show ?case
  proof (cases "ms fl r (p, c # cs, [])")
    case Nil
    then show ?thesis using 2 by simp
  next
    case (Cons st rest)
    obtain p' s' g where st: "st = (p', s', g)" by (cases st) auto
    have "m_groups m = g" using 2(2) Cons st by auto
    moreover have "(p', s', g) \<in> set (ms fl r (p, c # cs, []))" using Cons st by simp
    ultimately show ?thesis by blast
  qed
qed

lemma hint_state:
  assumes "st \<in> set (ms fl answer_hint_rx st0)"
  shows "\<exists>c s g. st = (Some c, s, (1, [c]) # g) \<and> cmatch fl (OneOf ''ABCD'') c"
proof -
  have "\<exists>st4. st \<in> set (ms fl (Group 1 (Atom (OneOf ''ABCD''))) st4)"
    using assms unfolding answer_hint_rx_def seqs.simps ms_Seq_set by blast
  then obtain p4 s4 g4 where "st \<in> set (ms fl (Group 1 (Atom (OneOf ''ABCD''))) (p4, s4, g4))"
    by (metis prod_cases3)
  then show ?thesis using ms_Group_Atom by blast
qed

lemma hint_letter:
  assumes "re_search fl answer_hint_rx text = Some m"
  shows "\<exists>c. group m 1 = [c] \<and> cmatch fl (OneOf ''ABCD'') c"
proof -
  obtain p0 s0 p' s' where "(p', s', m_groups m) \<in> set (ms fl answer_hint_rx (p0, s0, []))"
    using assms scan_groups unfolding re_search_def by blast
  then obtain c g where "m_groups m = (1, [c]) # g" "cmatch fl (OneOf ''ABCD'') c"
    using hint_state by blast
  then show ?thesis by (auto simp: group_def)
qed

lemma letter_codes:
  "\<forall>c. cmatch flag_I (OneOf ''ABCD'') c \<longrightarrow>
     ord (upper [c]) = Inr (code_point CHR ''A'' + letter_index c)
     \<and> 0 \<le> letter_index c \<and> letter_index c \<le> 3"
  by code_simp

lemma raw_index_eq: "0 < n \<Longrightarrow> index_from_raw raw n = raw_index raw n"
  unfolding index_from_raw_def raw_index_def by auto

lemma raw_index_range: "0 < n \<Longrightarrow> 0 \<le> raw_index raw n \<and> raw_index raw n < n"
  unfolding raw_index_def by auto

text \<open>With options, the result follows the leftmost hint if its index is in range,
  and the raw value otherwise; \<^verbatim>\<open>ord\<close> never fails.\<close>

lemma normalize_eq:
  assumes "0 < n"
  shows "normalize_correct_index raw n b e =
     Inr (case leftmost_hint (b @ '' '' @ e) of
            None \<Rightarrow> raw_index raw n
          | Some c \<Rightarrow> if letter_index c < n then letter_index c else raw_index raw n)"
proof (cases "re_search flag_I answer_hint_rx (b @ '' '' @ e)")
  case None
  then show ?thesis
    using assms by (simp add: normalize_correct_index_def leftmost_hint_def raw_index_eq)
next
  case (Some m)
  then obtain c where c: "group m 1 = [c]" "cmatch flag_I (OneOf ''ABCD'') c"
    using hint_letter by blast
  then have o: "ord (upper [c]) = Inr (code_point CHR ''A'' + letter_index c)"
    and r: "0 \<le> letter_index c"
    using letter_codes by blast+
  show ?thesis
    using assms Some c(1) o r
    by (simp add: normalize_correct_index_def leftmost_hint_def raw_index_eq Let_def)
qed

lemma normalize_none: "n \<le> 0 \<Longrightarrow> normalize_correct_index raw n b e = Inr 0"
  by (simp add: normalize_correct_index_def)

lemma normalize_range:
  assumes "0 < n"
  shows "\<exists>k. normalize_correct_index raw n b e = Inr k \<and> 0 \<le> k \<and> k < n"
proof (cases "leftmost_hint (b @ '' '' @ e)")
  case None
  then show ?thesis using assms normalize_eq [OF assms, of raw b e] raw_index_range [of n raw] by simp
next
  case (Some c)
  then obtain m where m: "re_search flag_I answer_hint_rx (b @ '' '' @ e) = Some m" "c = hd (group m 1)"
    by (auto simp: leftmost_hint_def split: option.splits)
  then have "0 \<le> letter_index c"
    using hint_letter [OF m(1)] letter_codes by auto
  then show ?thesis
    using assms Some normalize_eq [OF assms, of raw b e] raw_index_range [of n raw] by simp
qed





section \<open>Quiz parsing: proofs\<close>

lemma normalize_returns:
  "\<exists>k. normalize_correct_index raw n b e = Inr k \<and> (0 < n \<longrightarrow> 0 \<le> k \<and> k < n)"
proof (cases "0 < n")
  case True
  then show ?thesis using normalize_range [of n raw b e] by auto
next
  case False
  then show ?thesis using normalize_none [of n raw b e] by auto
qed

lemma parse_block_keeps:
  assumes "parse_block qs m = Inr qs'" and "\<forall>q\<in>set qs. well_formed q"
  shows "\<forall>q\<in>set qs'. well_formed q"
proof -
  obtain raw where raw: "py_int (group m 1) = Inr raw"
    using assms(1) unfolding parse_block_def by (cases "py_int (group m 1)") auto
  define block where "block = group m 2"
  define opts where "opts = map (\<lambda>m. strip (group m 1)) (finditer flag_S opt_pattern block)"
  define expl where "expl = (case re_search flag_S explanation_rx block of
                               Some exp_m \<Rightarrow> strip (group exp_m 1) | None \<Rightarrow> [])"
  show ?thesis
  proof (cases "opts = []")
    case True
    then have "qs' = qs"
      using assms(1) raw unfolding parse_block_def Let_def opts_def block_def by simp
    then show ?thesis using assms(2) by simp
  next
    case False
    then have pos: "0 < int (length opts)" by simp
    obtain k where k: "normalize_correct_index raw (int (length opts)) block expl = Inr k"
      "0 \<le> k" "k < int (length opts)"
      using normalize_returns [of raw "int (length opts)" block expl] pos by auto
    have "\<exists>qu co. qs' = qs @ [\<lparr>question = qu, code_snippet = co, options = opts,
                                 correct_index = k, explanation = expl\<rparr>]"
      using assms(1) raw False k(1)
      unfolding parse_block_def Let_def opts_def [symmetric] block_def [symmetric]
        expl_def [symmetric]
      by auto
    then show ?thesis using assms(2) False k(2,3) by (auto simp: well_formed_def)
  qed
qed

lemma for_each_keeps:
  assumes "for_each body s xs = Inr s'" and "I s"
    and "\<And>s x s'. I s \<Longrightarrow> body s x = Inr s' \<Longrightarrow> I s'"
  shows "I s'"
  using assms(1,2)
proof (induction xs arbitrary: s)
  case Nil
  then show ?case by simp
next
  case (Cons x xs)
  then obtain s1 where s1: "body s x = Inr s1" "for_each body s1 xs = Inr s'"
    by (cases "body s x") auto
  then have "I s1" using assms(3) Cons.prems(2) by blast
  then show ?case using Cons.IH s1(2) by blast
qed

lemma parse_quiz_well_formed:
  assumes "parse_quiz html = Inr questions"
  shows "\<forall>q\<in>set questions. well_formed q"
proof -
  have "for_each parse_block [] (finditer flag_S q_pattern html) = Inr questions"
    using assms by (simp add: parse_quiz_def)
  then show ?thesis
    by (rule for_each_keeps [where I = "\<lambda>qs. \<forall>q\<in>set qs. well_formed q"])
      (simp, rule parse_block_keeps)
qed

lemma two_option_quiz_parsed:
  "parse_quiz two_option_quiz =
     Inr [\<lparr>question = ''Q?'', code_snippet = [], options = [''A'', ''B''],
           correct_index = 1, explanation = []\<rparr>]"
  by code_simp

text \<open>
  Claim C10. Every question of the list that \<^verbatim>\<open>_parse_quiz\<close> returns has at least one
  option, so a block without parsed options is not in the list, and its correct index
  lies between 0 and the number of its options less one.
\<close>

theorem parsed_questions_are_well_formed:
  "parse_quiz html = Inr questions \<Longrightarrow> q \<in> set questions \<Longrightarrow>
     options q \<noteq> [] \<and> 0 \<le> correct_index q \<and> correct_index q \<le> int (length (options q)) - 1"
  using parse_quiz_well_formed [of html questions] by (auto simp: well_formed_def)

theorem parsed_questions_are_well_formed_witness:
  "parse_quiz two_option_quiz =
     Inr [\<lparr>question = ''Q?'', code_snippet = [], options = [''A'', ''B''],
           correct_index = 1, explanation = []\<rparr>]
   \<and> options \<lparr>question = ''Q?'', code_snippet = [], options = [''A'', ''B''],
               correct_index = 1, explanation = []\<rparr> \<noteq> []
   \<and> (0::int) \<le> 1 \<and> (1::int) \<le> int (length [''A'', ''B'']) - 1"
  using parsed_questions_are_well_formed [OF two_option_quiz_parsed, of
      "\<lparr>question = ''Q?'', code_snippet = [], options = [''A'', ''B''],
        correct_index = 1, explanation = []\<rparr>"] two_option_quiz_parsed
  by simp

section \<open>Quiz parsing: a run of the matcher\<close>

text \<open>The steps of the matcher on a literal text, on a greedy and on a lazy star of a
  character class, for flags without \<^verbatim>\<open>IGNORECASE\<close>.\<close>

lemma lit_one: "lit [c] = Atom (Chr c)"
  by (simp add: lit_def)

lemma lit_more: "lit (c # d # w) = Seq (Atom (Chr c)) (lit (d # w))"
  by (simp add: lit_def)

lemma lit_step:
  "\<not> IGNORECASE fl \<Longrightarrow>
     ms fl (lit (c # w)) (p, s, g) =
       (if take (Suc (length w)) s = c # w
        then [(Some (last (c # w)), drop (Suc (length w)) s, g)] else [])"
proof (induction w arbitrary: c p s)
  case Nil
  then show ?case by (cases s) (auto simp: lit_one chr_match_def)
next
  case (Cons d w)
  show ?case
  proof (cases s)
    case Nil
    then show ?thesis by (simp add: lit_more)
  next
    case (Cons x xs)
    then show ?thesis
      using Cons.IH [OF Cons.prems, of d "Some x" xs] Cons.prems
      by (auto simp: lit_more chr_match_def)
  qed
qed

lemma lit_fail:
  "\<not> IGNORECASE fl \<Longrightarrow> s = [] \<or> hd s \<noteq> c \<Longrightarrow> ms fl (Seq (lit (c # w)) r) (p, s, g) = []"
  by (cases s) (auto simp: lit_step)

lemma star_nil: "ms fl (Star (Atom a)) (p, [], g) = [(p, [], g)]"
  by simp

lemma star_cons:
  "ms fl (Star (Atom a)) (p, c # cs, g) =
     (if cmatch fl a c then ms fl (Star (Atom a)) (Some c, cs, g) else []) @ [(p, c # cs, g)]"
  by (simp add: Let_def)

lemma seq_star_nil: "ms fl (Seq (Star (Atom a)) r) (p, [], g) = ms fl r (p, [], g)"
  by simp

lemma seq_star_cons:
  "ms fl (Seq (Star (Atom a)) r) (p, c # cs, g) =
     (if cmatch fl a c then ms fl (Seq (Star (Atom a)) r) (Some c, cs, g) else [])
       @ ms fl r (p, c # cs, g)"
  unfolding ms.simps(4) star_cons by simp

lemma seq_star_fails:
  assumes "\<And>p s g. s = [] \<or> hd s \<noteq> d \<Longrightarrow> ms fl r (p, s, g) = []"
    and "d \<notin> set xs"
    and "rest = [] \<or> (hd rest \<noteq> d \<and> \<not> cmatch fl a (hd rest))"
  shows "ms fl (Seq (Star (Atom a)) r) (p, xs @ rest, g) = []"
  using assms(2)
proof (induction xs arbitrary: p)
  case Nil
  show ?case
  proof (cases rest)
    case Nil
    then show ?thesis using assms(1) [of "[]"] seq_star_nil by simp
  next
    case (Cons y ys)
    then show ?thesis
      using assms(3) assms(1) [of "y # ys"] by (simp add: seq_star_cons del: ms.simps)
  qed
next
  case (Cons x xs)
  then have "ms fl (Seq (Star (Atom a)) r) (Some x, xs @ rest, g) = []" by simp
  moreover have "ms fl r (p, x # xs @ rest, g) = []"
    using assms(1) [of "x # xs @ rest" p g] Cons.prems by auto
  ultimately show ?case by (simp add: seq_star_cons del: ms.simps)
qed

lemma star_head:
  assumes "\<forall>x\<in>set xs. cmatch fl a x" and "rest = [] \<or> \<not> cmatch fl a (hd rest)"
  shows "\<exists>tl. ms fl (Star (Atom a)) (p, xs @ rest, g)
           = (if xs = [] then p else Some (last xs), rest, g) # tl"
  using assms(1)
proof (induction xs arbitrary: p)
  case Nil
  then show ?case using assms(2) by (cases rest) (auto simp: star_cons star_nil simp del: ms.simps)
next
  case (Cons x xs)
  then obtain tl where
    "ms fl (Star (Atom a)) (Some x, xs @ rest, g)
       = (if xs = [] then Some x else Some (last xs), rest, g) # tl"
    by force
  then show ?case using Cons.prems by (auto simp: star_cons simp del: ms.simps)
qed

lemma lazy_head: "\<exists>tl. ms fl (LazyStar r) (p, s, g) = (p, s, g) # tl"
  by (cases s) (auto simp: Let_def)


lemma seq_lit:
  "\<not> IGNORECASE fl \<Longrightarrow>
     ms fl (Seq (lit (c # w)) r) (p, s, g) =
       (if take (Suc (length w)) s = c # w
        then ms fl r (Some (last (c # w)), drop (Suc (length w)) s, g) else [])"
  by (simp add: lit_step)

lemma not_ignorecase: "\<not> IGNORECASE flag_S"
  by (simp add: flag_S_def)

lemma none_gt: "cmatch flag_S (NoneOf ''>'') c \<longleftrightarrow> c \<noteq> CHR ''>''"
  by (auto simp: chr_match_def flag_S_def)

lemma char_facts:
  "is_space CHR '' ''" "\<not> is_space CHR ''c''" "is_digit CHR ''1''" "\<not> is_digit CHR 0x22"
  by code_simp+

lemma long_index_match:
  "\<exists>p s tl. ms flag_S q_pattern (None, digits_quiz (Suc n), [])
     = (p, s, [(2, []), (1, replicate (Suc n) CHR ''1'')]) # tl"
proof -
  let ?D = "replicate (Suc n) CHR ''1''"
  define T12 where "T12 = Lookahead (alts [seqs [lit ''<div'', plus (Atom Space),
                              lit ''class=\"quiz-question\"''], EndAnchor])"
  define T11 where "T11 = Seq (Star (Atom Space)) T12"
  define T10 where "T10 = Seq (lit ''</div>'') T11"
  define T9 where "T9 = Seq (Group 2 (LazyStar (Atom Dot))) T10"
  define T8 where "T8 = Seq (lit ''>'') T9"
  define T7 where "T7 = Seq (Star (Atom (NoneOf ''>''))) T8"
  define T6 where "T6 = Seq (lit ''\"'') T7"
  define T5 where "T5 = Seq (Group 1 (plus (Atom Digit))) T6"
  define T4 where "T4 = Seq (lit ''data-correct=\"'') T5"
  define T3 where "T3 = Seq (Star (Atom (NoneOf ''>''))) T4"
  define T2 where "T2 = Seq (lit ''class=\"quiz-question\"'') T3"
  define T1 where "T1 = Seq (plus (Atom Space)) T2"
  have qp: "q_pattern = Seq (lit ''<div'') T1"
    unfolding T1_def T2_def T3_def T4_def T5_def T6_def T7_def T8_def T9_def T10_def T11_def
      T12_def q_pattern_def
    by simp
  note ni = not_ignorecase
  have s12: "ms flag_S T12 (p, [], g) = [(p, [], g)]" for p g
    unfolding T12_def alts.simps seqs.simps
    by (simp add: lit_fail [OF ni] del: ms.simps(4)) 
  have s11: "ms flag_S T11 (p, [], g) = [(p, [], g)]" for p g
    unfolding T11_def seq_star_nil s12 ..
  have s10: "ms flag_S T10 (p, ''</div>'', g) = [(Some CHR ''>'', [], g)]" for p g
    unfolding T10_def seq_lit [OF ni] by (simp add: s11)
  have s9: "\<exists>tl. ms flag_S T9 (p, ''</div>'', g) = (Some CHR ''>'', [], (2, []) # g) # tl" for p g
  proof -
    obtain tl where "ms flag_S (LazyStar (Atom Dot)) (p, ''</div>'', g) = (p, ''</div>'', g) # tl"
      using lazy_head by blast
    then show ?thesis
      unfolding T9_def by (simp add: s10 del: ms.simps(7))
  qed
  have s8: "ms flag_S T8 (p, ''></div>'', g) = ms flag_S T9 (Some CHR ''>'', ''</div>'', g)" for p g
    unfolding T8_def seq_lit [OF ni] by simp
  have s7: "ms flag_S T7 (p, ''></div>'', g) = ms flag_S T8 (p, ''></div>'', g)" for p g
    unfolding T7_def seq_star_cons none_gt by simp
  have s6: "ms flag_S T6 (p, ''\"></div>'', g) = ms flag_S T7 (Some CHR 0x22, ''></div>'', g)" for p g
    unfolding T6_def seq_lit [OF ni] by simp
  have s6': "\<exists>tl. ms flag_S T6 (p, ''\"></div>'', g) = (Some CHR ''>'', [], (2, []) # g) # tl" for p g
    unfolding s6 s7 s8 by (rule s9)
  have s5: "\<exists>tl. ms flag_S T5 (p, ?D @ ''\"></div>'', g)
              = (Some CHR ''>'', [], [(2, []), (1, ?D)] @ g) # tl" for p g
  proof -
    have "\<exists>tl. ms flag_S (Star (Atom Digit)) (Some CHR ''1'', replicate n CHR ''1'' @ ''\"></div>'', g)
            = (if replicate n CHR ''1'' = [] then Some CHR ''1'' else Some (last (replicate n CHR ''1'')),
               ''\"></div>'', g) # tl"
      by (rule star_head) (simp_all add: char_facts)
    then obtain q tl where st: "ms flag_S (Star (Atom Digit))
        (Some CHR ''1'', replicate n CHR ''1'' @ ''\"></div>'', g) = (q, ''\"></div>'', g) # tl"
      by blast
    have "ms flag_S (Group 1 (plus (Atom Digit))) (p, ?D @ ''\"></div>'', g)
            = map (\<lambda>(p', s', g'). (p', s', (1, take (length (?D @ ''\"></div>'') - length s')
                                                (?D @ ''\"></div>'')) # g'))
                ((q, ''\"></div>'', g) # tl)"
      unfolding plus_def ms.simps(8) ms.simps(4) using st by (simp add: char_facts del: ms.simps(6))
    then obtain tl' where gr: "ms flag_S (Group 1 (plus (Atom Digit))) (p, ?D @ ''\"></div>'', g)
            = (q, ''\"></div>'', (1, ?D) # g) # tl'"
      by simp
    obtain tl6 where "ms flag_S T6 (q, ''\"></div>'', (1, ?D) # g)
            = (Some CHR ''>'', [], (2, []) # (1, ?D) # g) # tl6"
      using s6' by blast
    then show ?thesis
      unfolding T5_def ms.simps(4) gr by simp
  qed
  have s4: "ms flag_S T4 (p, ''data-correct=\"'' @ ?D @ ''\"></div>'', g)
              = ms flag_S T5 (Some CHR 0x22, ?D @ ''\"></div>'', g)" for p g
    unfolding T4_def seq_lit [OF ni] by simp
  have f4: "s = [] \<or> hd s \<noteq> CHR ''d'' \<Longrightarrow> ms flag_S T4 (p, s, g) = []" for p s g
    unfolding T4_def by (rule lit_fail [OF ni])
  have s3c: "ms flag_S T3 (p, ''ata-correct=\"'' @ ?D @ ''\"></div>'', g) = []" for p g
  proof -
    have "ms flag_S T3 (p, (''ata-correct=\"'' @ ?D @ ''\"'') @ ''></div>'', g) = []"
      unfolding T3_def
    proof (rule seq_star_fails [where d = "CHR ''d''"])
      show "s = [] \<or> hd s \<noteq> CHR ''d'' \<Longrightarrow> ms flag_S T4 (p, s, g) = []" for p s g
        by (rule f4)
      show "CHR ''d'' \<notin> set (''ata-correct=\"'' @ ?D @ ''\"'')"
        by simp
      show "''></div>'' = [] \<or> (hd ''></div>'' \<noteq> CHR ''d''
               \<and> \<not> cmatch flag_S (NoneOf ''>'') (hd ''></div>''))"
        by (simp add: none_gt del: cmatch.simps)
    qed
    then show ?thesis by simp
  qed
  have s3: "ms flag_S T3 (p, '' data-correct=\"'' @ ?D @ ''\"></div>'', g)
              = ms flag_S T4 (Some CHR '' '', ''data-correct=\"'' @ ?D @ ''\"></div>'', g)" for p g
  proof -
    have a: "ms flag_S T3 (p, CHR '' '' # CHR ''d'' # ''ata-correct=\"'' @ ?D @ ''\"></div>'', g)
        = ms flag_S T3 (Some CHR '' '', CHR ''d'' # ''ata-correct=\"'' @ ?D @ ''\"></div>'', g)"
      unfolding T3_def seq_star_cons [of flag_S _ _ p] none_gt
      using f4 [of "CHR '' '' # CHR ''d'' # ''ata-correct=\"'' @ ?D @ ''\"></div>''" p g]
      by (simp add: T3_def del: ms.simps replicate.simps)
    have b: "ms flag_S T3 (Some CHR '' '', CHR ''d'' # ''ata-correct=\"'' @ ?D @ ''\"></div>'', g)
        = ms flag_S T4 (Some CHR '' '', CHR ''d'' # ''ata-correct=\"'' @ ?D @ ''\"></div>'', g)"
      unfolding T3_def seq_star_cons [of flag_S _ _ "Some CHR '' ''"] none_gt
      using s3c [of "Some CHR ''d''" g]
      by (simp add: T3_def del: ms.simps replicate.simps)
    show ?thesis using a b by (simp del: ms.simps replicate.simps)
  qed
  have s2: "ms flag_S T2 (p, ''class=\"quiz-question\" data-correct=\"'' @ ?D @ ''\"></div>'', g)
              = ms flag_S T3 (Some CHR 0x22, '' data-correct=\"'' @ ?D @ ''\"></div>'', g)" for p g
    unfolding T2_def seq_lit [OF ni] by (simp del: ms.simps replicate.simps)
  have s1: "ms flag_S T1 (p, '' class=\"quiz-question\" data-correct=\"'' @ ?D @ ''\"></div>'', g)
              = ms flag_S T2 (Some CHR '' '', ''class=\"quiz-question\" data-correct=\"'' @ ?D @ ''\"></div>'', g)"
    for p g
    unfolding T1_def plus_def ms.simps(4)
    by (simp add: char_facts star_cons del: ms.simps(4) ms.simps(6) replicate.simps)
  have s0: "ms flag_S q_pattern (None, digits_quiz (Suc n), [])
              = ms flag_S T1 (Some CHR ''v'', '' class=\"quiz-question\" data-correct=\"'' @ ?D @ ''\"></div>'', [])"
    unfolding qp seq_lit [OF ni] digits_quiz_def by (simp del: ms.simps replicate.simps)
  show ?thesis
    unfolding s0 s1 s2 s3 s4 using s5 [of "Some CHR 0x22" "[]"] by auto
qed

lemma long_index_finditer:
  "\<exists>m rest. finditer flag_S q_pattern (digits_quiz (Suc n)) = m # rest
     \<and> group m 1 = replicate (Suc n) CHR ''1''"
proof -
  obtain p s tl where f: "ms flag_S q_pattern (None, digits_quiz (Suc n), [])
      = (p, s, [(2, []), (1, replicate (Suc n) CHR ''1'')]) # tl"
    using long_index_match by blast
  obtain c cs where c: "digits_quiz (Suc n) = c # cs"
    by (simp add: digits_quiz_def)
  show ?thesis
    using f unfolding finditer_def c
    by (simp add: Let_def group_def del: ms.simps replicate.simps)
qed

lemma long_index_fails:
  assumes "4300 \<le> n"
  shows "parse_quiz (digits_quiz (Suc n)) = Inl ValueError"
proof -
  obtain m rest where m: "finditer flag_S q_pattern (digits_quiz (Suc n)) = m # rest"
    "group m 1 = replicate (Suc n) CHR ''1''"
    using long_index_finditer by blast
  have "py_int (group m 1) = Inl ValueError"
    using assms unfolding m(2) py_int_def int_max_str_digits_def
    by (simp add: list_all_iff char_facts del: replicate.simps)
  then have "parse_block [] m = Inl ValueError"
    by (simp add: parse_block_def)
  then show ?thesis
    unfolding parse_quiz_def m(1) by simp
qed

lemma short_index_parsed: "parse_quiz (digits_quiz 4) = Inr []"
  by code_simp

text \<open>
  Claim C8 says that \<^verbatim>\<open>_parse_quiz\<close> returns a list on every input and never raises.
  On a quiz block whose \<^verbatim>\<open>data-correct\<close> attribute holds 4301 digits the pattern matches,
  \<^verbatim>\<open>int(match.group(1))\<close> refuses the text, and the \<^verbatim>\<open>ValueError\<close> leaves the function;
  the same block with 4 digits is parsed, to no question.
\<close>

theorem long_index_raises:
  "parse_quiz long_index_quiz = Inl ValueError \<and> parse_quiz (digits_quiz 4) = Inr []"
proof -
  have "(4301::nat) = Suc 4300" by simp
  then have "parse_quiz long_index_quiz = Inl ValueError"
    unfolding long_index_quiz_def using long_index_fails [of 4300] by simp
  then show ?thesis using short_index_parsed by simp
qed
end
